theory Spec2Isabelle
  imports Complex_Main
begin

section \<open>Exceptions\<close>

text \<open>
  The element types of table columns, and the exceptions the embedded code can raise.
  \<open>ParticipantVisibleError\<close> carries the dictionary \<open>bad_dtypes\<close> of its message.
\<close>

datatype dtype = dt_int64 | dt_float64 | dt_bool | dt_object

datatype error = FileNotFoundError | KeyError | IndexError | ValueError | TypeError
  | UnpicklingError | RuntimeError
  | ParticipantVisibleError "(string \<times> dtype) list" | AssertionError

section \<open>The training loop of \<open>train_precomputed_crnn\<close>\<close>

text \<open>
  The control logic of the epoch loop is embedded as it is written. The numeric work of an
  epoch (optimizer steps, losses, the call of \<open>roc_auc_score\<close>) is done by external
  libraries in floating point; the model takes its outcome as a parameter: for every epoch
  index the result of the \<open>try\<close> block that computes the validation AUC, \<open>Some v\<close> when
  \<open>roc_auc_score\<close> returned \<open>v\<close> and \<open>None\<close> when the block raised. The model parameters are
  represented by the number of training epochs that have been applied to them. AUC values
  are real numbers.
\<close>

record checkpoint =
  model_state_dict :: nat
  ckpt_epoch :: nat
  ckpt_val_auc :: real

text \<open>
  What can be at \<open>best_model_path\<close>: a checkpoint as \<open>torch.save\<close> writes it, or any other
  content. Whether a checkpoint file can be loaded is a matter of the tensor library and of
  the model: \<open>torch_load_reads\<close> says that \<open>torch.load\<close> reads the file, and \<open>state_dict_fits\<close>
  that \<open>load_state_dict\<close> accepts its parameters for the model of this function.
\<close>

datatype stored_file = Checkpoint checkpoint | OtherContent

record library =
  torch_load_reads :: "checkpoint \<Rightarrow> bool"
  state_dict_fits :: "checkpoint \<Rightarrow> bool"

text \<open>
  One entry per executed epoch: the epoch index, the value of \<open>val_auc\<close> after the
  \<open>try\<close>/\<open>except\<close>, the payload of the \<open>torch.save\<close> to \<open>best_model_path\<close> (\<open>None\<close> when the
  epoch did not save) and the value of \<open>wait\<close> at the end of the epoch.
\<close>

record epoch_event =
  ev_epoch :: nat
  ev_val_auc :: real
  ev_saved :: "checkpoint option"
  ev_wait :: nat

text \<open>
  The variables of the function that the loop reads and writes. \<open>scheduler_steps\<close> lists the
  arguments of the calls \<open>scheduler.step(val_auc)\<close> in order, \<open>best_file\<close> is the content of the
  file at \<open>best_model_path\<close> (\<open>None\<close> when there is no file), and \<open>epoch_log\<close> records what each
  executed epoch did.
\<close>

record train_state =
  model :: nat
  best_auc :: real
  wait :: nat
  val_auc_history :: "real list"
  scheduler_steps :: "real list"
  best_file :: "stored_file option"
  epoch_log :: "epoch_event list"

definition num_epochs :: nat where
  "num_epochs = 50"

definition patience :: nat where
  "patience = 7"

text \<open>
  The state before the loop: \<open>best_auc = 0\<close>, \<open>wait = 0\<close>, an empty history. The argument is
  what the file system holds at \<open>best_model_path\<close> when the function is called.
\<close>

definition init_state :: "stored_file option \<Rightarrow> train_state" where
  "init_state f = \<lparr>model = 0, best_auc = 0, wait = 0, val_auc_history = [],
     scheduler_steps = [], best_file = f, epoch_log = []\<rparr>"

text \<open>
  The \<open>try\<close>/\<open>except\<close> around the AUC computation: on failure
  \<open>val_auc = history['val_auc'][-1] if history['val_auc'] else 0\<close>.
\<close>

definition compute_val_auc :: "real option \<Rightarrow> real list \<Rightarrow> real" where
  "compute_val_auc r hist =
     (case r of Some v \<Rightarrow> v | None \<Rightarrow> (if hist \<noteq> [] then last hist else 0))"

text \<open>
  One iteration of the \<open>for\<close> loop. The second component is \<open>True\<close> when the iteration
  ends in \<open>break\<close>.
\<close>

definition epoch_body :: "real option \<Rightarrow> nat \<Rightarrow> train_state \<Rightarrow> train_state \<times> bool" where
  "epoch_body r epoch s =
     (let val_auc = compute_val_auc r (val_auc_history s);
          s1 = s\<lparr>model := Suc (model s),
                 val_auc_history := val_auc_history s @ [val_auc],
                 scheduler_steps := scheduler_steps s @ [val_auc]\<rparr>
      in if val_auc > best_auc s1 then
           (let ck = \<lparr>model_state_dict = model s1, ckpt_epoch = epoch, ckpt_val_auc = val_auc\<rparr>
            in (s1\<lparr>best_auc := val_auc, best_file := Some (Checkpoint ck), wait := 0,
                    epoch_log := epoch_log s1 @
                      [\<lparr>ev_epoch = epoch, ev_val_auc = val_auc, ev_saved = Some ck, ev_wait = 0\<rparr>]\<rparr>,
                False))
         else
           (s1\<lparr>wait := wait s1 + 1,
                epoch_log := epoch_log s1 @
                  [\<lparr>ev_epoch = epoch, ev_val_auc = val_auc, ev_saved = None,
                    ev_wait = wait s1 + 1\<rparr>]\<rparr>,
            wait s1 + 1 \<ge> patience))"

text \<open>\<open>for epoch in range(num_epochs)\<close> with its \<open>break\<close>.\<close>

fun epoch_loop :: "(nat \<Rightarrow> real option) \<Rightarrow> nat list \<Rightarrow> train_state \<Rightarrow> train_state" where
  "epoch_loop auc [] s = s"
| "epoch_loop auc (epoch # rest) s =
     (case epoch_body (auc epoch) epoch s of
        (s', brk) \<Rightarrow> if brk then s' else epoch_loop auc rest s')"

definition run :: "(nat \<Rightarrow> real option) \<Rightarrow> stored_file option \<Rightarrow> train_state" where
  "run auc f = epoch_loop auc [0..<num_epochs] (init_state f)"

record train_result =
  returned_model :: nat
  returned_history :: "real list"

text \<open>
  The two statements after the loop, \<open>checkpoint = torch.load(best_model_path)\<close> and
  \<open>model.load_state_dict(checkpoint['model_state_dict'])\<close>: the first raises when there is no
  file or the file cannot be read, the second when the parameters do not fit the model.
\<close>

definition torch_load :: "library \<Rightarrow> stored_file option \<Rightarrow> error + checkpoint" where
  "torch_load lib file =
     (case file of
        None \<Rightarrow> Inl FileNotFoundError
      | Some OtherContent \<Rightarrow> Inl UnpicklingError
      | Some (Checkpoint checkpoint) \<Rightarrow>
          if torch_load_reads lib checkpoint then Inr checkpoint else Inl UnpicklingError)"

definition load_state_dict :: "library \<Rightarrow> checkpoint \<Rightarrow> error + nat" where
  "load_state_dict lib checkpoint =
     (if state_dict_fits lib checkpoint then Inr (model_state_dict checkpoint)
      else Inl RuntimeError)"

text \<open>
  The whole function. \<open>loaded\<close> says that \<open>X_train\<close> and \<open>y_train\<close> are not \<open>None\<close>; otherwise the
  function returns \<open>None, None, None\<close>, here \<open>Inr None\<close>. After the loop the file at
  \<open>best_model_path\<close> is read unconditionally and its parameters are loaded into the model
  that is returned. The first component of the result is the content of \<open>best_model_path\<close>
  when the function ends. The label mapping and the bundle that is saved for the ensemble
  are left out.
\<close>

definition train_precomputed_crnn ::
  "library \<Rightarrow> bool \<Rightarrow> (nat \<Rightarrow> real option) \<Rightarrow> stored_file option \<Rightarrow>
     stored_file option \<times> (error + train_result option)" where
  "train_precomputed_crnn lib loaded auc f =
     (if \<not> loaded then (f, Inr None)
      else
        (let s = run auc f
         in (best_file s,
             case torch_load lib (best_file s) of
               Inl e \<Rightarrow> Inl e
             | Inr checkpoint \<Rightarrow>
                 (case load_state_dict lib checkpoint of
                    Inl e \<Rightarrow> Inl e
                  | Inr parameters \<Rightarrow>
                      Inr (Some \<lparr>returned_model = parameters,
                                 returned_history = val_auc_history s\<rparr>)))))"

text \<open>
  Notions used to state the properties of a run. The best validation AUC seen in the epochs
  with the values \<open>vs\<close>: their maximum, starting from the 0 that \<open>best_auc\<close> has before the
  loop.
\<close>

definition best_seen :: "real list \<Rightarrow> real" where
  "best_seen vs = fold max vs 0"

text \<open>The number of consecutive epochs at the end of a log that did not save.\<close>

definition streak :: "epoch_event list \<Rightarrow> nat" where
  "streak evs = length (takeWhile (\<lambda>ev. ev_saved ev = None) (rev evs))"

text \<open>The content of \<open>best_model_path\<close> after the saves of a log, starting from \<open>f\<close>.\<close>

definition file_after :: "stored_file option \<Rightarrow> epoch_event list \<Rightarrow> stored_file option" where
  "file_after f evs =
     fold (\<lambda>ev b. case ev_saved ev of None \<Rightarrow> b | Some ck \<Rightarrow> Some (Checkpoint ck)) evs f"

text \<open>
  The loop invariant: the history, the scheduler arguments, \<open>best_auc\<close>, \<open>wait\<close>, the model and
  the file agree with the log, and every logged epoch follows from the epochs before it.
\<close>

definition event_ok :: "(nat \<Rightarrow> real option) \<Rightarrow> epoch_event list \<Rightarrow> nat \<Rightarrow> bool" where
  "event_ok auc evs i \<longleftrightarrow>
     ev_val_auc (evs ! i) =
       compute_val_auc (auc (ev_epoch (evs ! i))) (map ev_val_auc (take i evs)) \<and>
     ev_saved (evs ! i) =
       (if ev_val_auc (evs ! i) > best_seen (map ev_val_auc (take i evs))
        then Some \<lparr>model_state_dict = Suc i, ckpt_epoch = ev_epoch (evs ! i),
                    ckpt_val_auc = ev_val_auc (evs ! i)\<rparr>
        else None) \<and>
     ev_wait (evs ! i) = streak (take (Suc i) evs)"

definition loop_inv :: "(nat \<Rightarrow> real option) \<Rightarrow> stored_file option \<Rightarrow> train_state \<Rightarrow> bool" where
  "loop_inv auc f s \<longleftrightarrow>
     val_auc_history s = map ev_val_auc (epoch_log s) \<and>
     scheduler_steps s = map ev_val_auc (epoch_log s) \<and>
     best_auc s = best_seen (map ev_val_auc (epoch_log s)) \<and>
     wait s = streak (epoch_log s) \<and>
     model s = length (epoch_log s) \<and>
     best_file s = file_after f (epoch_log s) \<and>
     (\<forall>i<length (epoch_log s). event_ok auc (epoch_log s) i)"

text \<open>
  The AUC value of the epoch before epoch \<open>i\<close>, as far as there is one.
\<close>

definition previous_auc :: "real list \<Rightarrow> nat \<Rightarrow> real option" where
  "previous_auc hist i = (if i = 0 then None else Some (hist ! (i - 1)))"

text \<open>
  The state of the loop when it has gone through the epochs below \<open>n\<close>, or has stopped
  before.
\<close>

definition state_after :: "(nat \<Rightarrow> real option) \<Rightarrow> stored_file option \<Rightarrow> nat \<Rightarrow> train_state" where
  "state_after auc f n = epoch_loop auc [0..<n] (init_state f)"

text \<open>
  Concrete runs: a checkpoint file left by an earlier run; a run in which the AUC
  computation fails in every epoch; and a run whose AUC rises for three epochs, stays below
  the best afterwards, and is not computed in epoch 4.
\<close>

definition stale_checkpoint :: checkpoint where
  "stale_checkpoint = \<lparr>model_state_dict = 12, ckpt_epoch = 11, ckpt_val_auc = 4 / 5\<rparr>"

text \<open>
  A library and model for which every checkpoint file loads, and one whose \<open>torch.load\<close>
  reads no checkpoint file.
\<close>

definition loads_all :: library where
  "loads_all = \<lparr>torch_load_reads = (\<lambda>ck. True), state_dict_fits = (\<lambda>ck. True)\<rparr>"

definition reads_none :: library where
  "reads_none = \<lparr>torch_load_reads = (\<lambda>ck. False), state_dict_fits = (\<lambda>ck. True)\<rparr>"

definition auc_all_fail :: "nat \<Rightarrow> real option" where
  "auc_all_fail e = None"

definition auc_rising :: "nat \<Rightarrow> real option" where
  "auc_rising e = (if e < 3 then Some (real (Suc e) / 10) else if e = 4 then None else Some (1/4))"

section \<open>Removing the classes with a single example\<close>

text \<open>
  The cell after \<open>load_precomputed_features\<close>. \<open>np.bincount(y)\<close> raises on a negative label;
  otherwise it has one count for every integer from 0 to the largest label, and is empty for
  an empty array.
\<close>

definition bincount :: "int list \<Rightarrow> error + nat list" where
  "bincount y =
     (if \<exists>v\<in>set y. v < 0 then Inl ValueError
      else if y = [] then Inr []
      else Inr (map (\<lambda>c. count_list y (int c)) [0..<Suc (nat (Max (set y)))]))"

text \<open>\<open>np.where(label_counts >= 2)[0]\<close>: the indices whose count is at least 2.\<close>

definition where_ge2 :: "nat list \<Rightarrow> nat list" where
  "where_ge2 label_counts = filter (\<lambda>c. label_counts ! c \<ge> 2) [0..<length label_counts]"

text \<open>\<open>np.isin(y, classes)\<close>: one boolean per element of \<open>y\<close>.\<close>

definition isin :: "int list \<Rightarrow> nat list \<Rightarrow> bool list" where
  "isin y classes = map (\<lambda>v. v \<in> set (map int classes)) y"

text \<open>
  Indexing an array with a boolean mask, \<open>a[mask]\<close>: the entries at the positions where the
  mask is true; a mask of another length raises.
\<close>

definition boolean_index :: "'a list \<Rightarrow> bool list \<Rightarrow> error + 'a list" where
  "boolean_index a msk =
     (if length a \<noteq> length msk then Inl IndexError
      else Inr (map fst (filter snd (zip a msk))))"

text \<open>
  The filtering step on the loaded arrays \<open>X\<close> (one feature entry per example) and \<open>y\<close>.
\<close>

definition filter_singletons :: "'x list \<Rightarrow> int list \<Rightarrow> error + ('x list \<times> int list)" where
  "filter_singletons X y =
     (case bincount y of
        Inl e \<Rightarrow> Inl e
      | Inr label_counts \<Rightarrow>
          if 1 \<in> set label_counts then
            (let valid_indices = isin y (where_ge2 label_counts)
             in case boolean_index X valid_indices of
                  Inl e \<Rightarrow> Inl e
                | Inr X' \<Rightarrow>
                    (case boolean_index y valid_indices of
                       Inl e \<Rightarrow> Inl e
                     | Inr y' \<Rightarrow> Inr (X', y')))
          else Inr (X, y))"

section \<open>The dataset wrapper\<close>

text \<open>
  A numpy array or tensor: its shape and its elements in row-major order. The dataset holds
  one feature entry and one label per example.
\<close>

record ndarray =
  shape :: "nat list"
  elems :: "real list"

record dataset =
  features :: "ndarray list"
  labels :: "int list"

text \<open>
  \<open>xs[idx]\<close> on an array or list: an index below 0 is taken from the end, and an index
  outside \<open>-len(xs), \<dots>, len(xs) - 1\<close> raises.
\<close>

definition py_index :: "'a list \<Rightarrow> int \<Rightarrow> error + 'a" where
  "py_index xs idx =
     (if idx < - int (length xs) \<or> int (length xs) \<le> idx then Inl IndexError
      else if idx < 0 then Inr (xs ! nat (int (length xs) + idx))
      else Inr (xs ! nat idx))"

text \<open>\<open>feature[np.newaxis, :, :]\<close>: a new leading axis of size 1 over the same elements.\<close>

definition newaxis :: "ndarray \<Rightarrow> ndarray" where
  "newaxis a = a\<lparr>shape := 1 # shape a\<rparr>"

definition len_dataset :: "dataset \<Rightarrow> nat" where
  "len_dataset ds = length (features ds)"

definition getitem :: "dataset \<Rightarrow> int \<Rightarrow> error + (ndarray \<times> int)" where
  "getitem ds idx =
     (case py_index (features ds) idx of
        Inl e \<Rightarrow> Inl e
      | Inr feature \<Rightarrow>
          (let feature' = (if length (shape feature) = 2 then newaxis feature else feature)
           in case py_index (labels ds) idx of
                Inl e \<Rightarrow> Inl e
              | Inr l \<Rightarrow> Inr (feature', l)))"

text \<open>A small dataset: a 2-D entry and an entry that already has the channel axis.\<close>

definition example_dataset :: dataset where
  "example_dataset =
     \<lparr>features = [\<lparr>shape = [2, 3], elems = [1, 2, 3, 4, 5, 6]\<rparr>,
                   \<lparr>shape = [1, 2, 3], elems = [6, 5, 4, 3, 2, 1]\<rparr>],
      labels = [7, 9]\<rparr>"

section \<open>The scoring metric\<close>

text \<open>
  A table is the list of its columns in order, each with its name; the names of a table are
  pairwise distinct. A column has one element type: integers, floats, booleans, or
  \<open>object\<close> for strings.
\<close>

datatype column = IntCol "int list" | FloatCol "real list" | BoolCol "bool list"
  | ObjectCol "string list"

type_synonym dataframe = "(string \<times> column) list"

fun dtype_of :: "column \<Rightarrow> dtype" where
  "dtype_of (IntCol xs) = dt_int64"
| "dtype_of (FloatCol xs) = dt_float64"
| "dtype_of (BoolCol xs) = dt_bool"
| "dtype_of (ObjectCol xs) = dt_object"

text \<open>\<open>pandas.api.types.is_numeric_dtype\<close>: numbers and booleans are numeric.\<close>

fun is_numeric_dtype :: "dtype \<Rightarrow> bool" where
  "is_numeric_dtype dt_int64 = True"
| "is_numeric_dtype dt_float64 = True"
| "is_numeric_dtype dt_bool = True"
| "is_numeric_dtype dt_object = False"

text \<open>
  The element type of \<open>df.values\<close>, the one array that holds all columns: a table without
  columns gives a float array; columns of one type keep it; booleans together with
  integers or floats give \<open>object\<close>, as does any \<open>object\<close> column; integers together with
  floats give floats.
\<close>

definition find_common_type :: "dtype list \<Rightarrow> dtype" where
  "find_common_type ts =
     (if ts = [] then dt_float64
      else if \<forall>t\<in>set ts. t = hd ts then hd ts
      else if dt_bool \<in> set ts \<and> (dt_int64 \<in> set ts \<or> dt_float64 \<in> set ts) then dt_object
      else if dt_object \<in> set ts then dt_object
      else dt_float64)"

definition values_dtype :: "dataframe \<Rightarrow> dtype" where
  "values_dtype df = find_common_type (map (\<lambda>(x, c). dtype_of c) df)"

text \<open>\<open>del df[key]\<close>: removes the column, raises when there is none of that name.\<close>

definition drop_column :: "dataframe \<Rightarrow> string \<Rightarrow> dataframe" where
  "drop_column df key = filter (\<lambda>(x, c). x \<noteq> key) df"

definition delitem :: "dataframe \<Rightarrow> string \<Rightarrow> error + dataframe" where
  "delitem df key = (if key \<in> set (map fst df) then Inr (drop_column df key) else Inl KeyError)"

text \<open>
  The dictionary \<open>bad_dtypes\<close> of the error message: the columns that are not numeric by
  themselves.
\<close>

definition bad_dtypes :: "dataframe \<Rightarrow> (string \<times> dtype) list" where
  "bad_dtypes submission =
     map (\<lambda>(x, c). (x, dtype_of c)) (filter (\<lambda>(x, c). \<not> is_numeric_dtype (dtype_of c)) submission)"

text \<open>The numbers of a column; a boolean counts as 1 or 0.\<close>

fun column_values :: "column \<Rightarrow> real list" where
  "column_values (IntCol xs) = map real_of_int xs"
| "column_values (FloatCol xs) = xs"
| "column_values (BoolCol xs) = map (\<lambda>b. if b then 1 else 0) xs"
| "column_values (ObjectCol xs) = []"

text \<open>
  \<open>solution.sum(axis=0)\<close> followed by the comparison \<open>solution_sums > 0\<close>: one sum per column.
  The sum of an integer column is a 64-bit integer and wraps around, as does the count of
  the true entries of a boolean column; the sum of a column of strings is a string, and
  comparing it with 0 raises.
\<close>

definition int64_wrap :: "int \<Rightarrow> int" where
  "int64_wrap n = (n + 2 ^ 63) mod 2 ^ 64 - 2 ^ 63"

fun column_sum :: "column \<Rightarrow> error + real" where
  "column_sum (IntCol xs) = Inr (real_of_int (int64_wrap (sum_list xs)))"
| "column_sum (FloatCol xs) = Inr (sum_list xs)"
| "column_sum (BoolCol xs) = Inr (real_of_int (int64_wrap (int (length (filter (\<lambda>b. b) xs)))))"
| "column_sum (ObjectCol xs) = Inl TypeError"

fun positive_columns :: "dataframe \<Rightarrow> error + string list" where
  "positive_columns [] = Inr []"
| "positive_columns ((x, c) # df) =
     (case column_sum c of
        Inl e \<Rightarrow> Inl e
      | Inr s \<Rightarrow>
          (case positive_columns df of
             Inl e \<Rightarrow> Inl e
           | Inr xs \<Rightarrow> Inr (if s > 0 then x # xs else xs)))"

text \<open>\<open>df[columns].values\<close>: the named columns, in the order of the names.\<close>

fun select_columns :: "dataframe \<Rightarrow> string list \<Rightarrow> error + column list" where
  "select_columns df [] = Inr []"
| "select_columns df (x # xs) =
     (case map_of df x of
        None \<Rightarrow> Inl KeyError
      | Some c \<Rightarrow>
          (case select_columns df xs of
             Inl e \<Rightarrow> Inl e
           | Inr cs \<Rightarrow> Inr (c # cs)))"

text \<open>
  The function \<open>score\<close>. Both tables are objects of the caller which \<open>del\<close> changes in place, so
  the model returns them together with the result: the first component is the caller's
  solution and submission tables when the call ends, the second the returned score or the
  raised exception. The parameter \<open>metric\<close> stands for the call
  \<open>kaggle_metric_utilities.safe_call_score(sklearn.metrics.roc_auc_score, \<dots>, average='macro')\<close>
  on the two arrays of selected columns.
\<close>

definition score ::
  "(column list \<Rightarrow> column list \<Rightarrow> error + real) \<Rightarrow> dataframe \<Rightarrow> dataframe \<Rightarrow> string \<Rightarrow>
     (dataframe \<times> dataframe) \<times> (error + real)" where
  "score metric solution submission row_id_column_name =
     (case delitem solution row_id_column_name of
        Inl e \<Rightarrow> ((solution, submission), Inl e)
      | Inr solution1 \<Rightarrow>
          (case delitem submission row_id_column_name of
             Inl e \<Rightarrow> ((solution1, submission), Inl e)
           | Inr submission1 \<Rightarrow>
               ((solution1, submission1),
                if \<not> is_numeric_dtype (values_dtype submission1)
                then Inl (ParticipantVisibleError (bad_dtypes submission1))
                else
                  (case positive_columns solution1 of
                     Inl e \<Rightarrow> Inl e
                   | Inr scored_columns \<Rightarrow>
                       if \<not> length scored_columns > 0 then Inl AssertionError
                       else
                         (case select_columns solution1 scored_columns of
                            Inl e \<Rightarrow> Inl e
                          | Inr y_true \<Rightarrow>
                              (case select_columns submission1 scored_columns of
                                 Inl e \<Rightarrow> Inl e
                               | Inr y_score \<Rightarrow> metric y_true y_score))))))"

text \<open>A ground-truth column has a positive row.\<close>

definition has_positive :: "column \<Rightarrow> bool" where
  "has_positive c \<longleftrightarrow> (\<exists>v\<in>set (column_values c). v > 0)"

text \<open>
  The reference value of the macro-averaged ROC-AUC in exact arithmetic, for concrete
  tables: per column the share of (positive, negative) pairs of rows that the scores order
  correctly, ties counting one half, and then the mean over the columns. A column whose
  rows are all of one class has no AUC.
\<close>

definition binary_auc :: "real list \<Rightarrow> real list \<Rightarrow> error + real" where
  "binary_auc y_true y_score =
     (let pos = map snd (filter (\<lambda>(t, s). t > 0) (zip y_true y_score));
          neg = map snd (filter (\<lambda>(t, s). \<not> t > 0) (zip y_true y_score))
      in if pos = [] \<or> neg = [] then Inl ValueError
         else Inr (sum_list (map (\<lambda>p. sum_list (map (\<lambda>n. if p > n then 1 else if p = n then 1 / 2 else 0) neg)) pos)
                   / real (length pos * length neg)))"

fun column_aucs :: "column list \<Rightarrow> column list \<Rightarrow> error + real list" where
  "column_aucs (t # ts) (s # ss) =
     (case binary_auc (column_values t) (column_values s) of
        Inl e \<Rightarrow> Inl e
      | Inr a \<Rightarrow> (case column_aucs ts ss of Inl e \<Rightarrow> Inl e | Inr as \<Rightarrow> Inr (a # as)))"
| "column_aucs ts ss = Inr []"

definition macro_auc :: "column list \<Rightarrow> column list \<Rightarrow> error + real" where
  "macro_auc y_true y_score =
     (case column_aucs y_true y_score of
        Inl e \<Rightarrow> Inl e
      | Inr as \<Rightarrow> if as = [] then Inl ValueError else Inr (sum_list as / real (length as)))"

text \<open>Tables for concrete calls.\<close>

definition example_solution :: dataframe where
  "example_solution =
     [(''row_id'', IntCol [0, 1, 2, 3]), (''a'', IntCol [1, 0, 0, 1]),
      (''b'', IntCol [0, 0, 0, 0]), (''c'', IntCol [0, 1, 0, 0])]"

definition example_submission :: dataframe where
  "example_submission =
     [(''row_id'', IntCol [0, 1, 2, 3]), (''a'', FloatCol [9 / 10, 1 / 5, 3 / 10, 3 / 5]),
      (''b'', FloatCol [1 / 10, 1 / 10, 1 / 2, 1 / 5]), (''c'', FloatCol [1 / 2, 2 / 5, 7 / 10, 1 / 10])]"

definition bool_submission :: dataframe where
  "bool_submission =
     [(''row_id'', IntCol [0, 1, 2, 3]), (''a'', BoolCol [True, False, False, True]),
      (''b'', FloatCol [1 / 10, 1 / 10, 1 / 2, 1 / 5]), (''c'', FloatCol [1 / 2, 2 / 5, 7 / 10, 1 / 10])]"

definition string_submission :: dataframe where
  "string_submission =
     [(''row_id'', IntCol [0, 1, 2, 3]), (''a'', FloatCol [9 / 10, 1 / 5, 3 / 10, 3 / 5]),
      (''b'', ObjectCol [''x'', ''0.1'', ''0.5'', ''0.2'']), (''c'', FloatCol [1 / 2, 2 / 5, 7 / 10, 1 / 10])]"

definition all_bool_submission :: dataframe where
  "all_bool_submission =
     [(''row_id'', IntCol [0, 1, 2, 3]), (''a'', BoolCol [True, False, False, True]),
      (''b'', BoolCol [False, False, True, False]), (''c'', BoolCol [False, True, True, False])]"

definition empty_solution :: dataframe where
  "empty_solution =
     [(''row_id'', IntCol [0, 1]), (''a'', IntCol [0, 0]), (''b'', IntCol [0, 0])]"

section \<open>The CRNN model\<close>

text \<open>
  The layers that \<open>PrecomputedFeatureCRNN\<close> is built from, with the arguments the
  constructor gives them: \<open>Conv2d in_channels out_channels kernel_size padding\<close> (stride 1),
  \<open>MaxPool2d kernel_size stride\<close>, \<open>Dropout p\<close>, \<open>Linear in_features out_features\<close>, and the
  batch normalisations with their number of features.
\<close>

datatype layer = Conv2d nat nat nat nat | BatchNorm2d nat | BatchNorm1d nat | ReLU | Tanh
  | MaxPool2d nat nat | Dropout real | Linear nat nat

text \<open>
  The shape of the output of a layer for an input of a given shape, or the exception that
  the layer raises, by the shape rules of the tensor library; \<open>training\<close> is the mode of the
  module (\<open>model.train()\<close> or \<open>model.eval()\<close>). A convolution and a pooling take a batch
  \<open>(N, C, H, W)\<close> or a single \<open>(C, H, W)\<close>; a convolution with stride 1 maps a side \<open>h\<close> to
  \<open>h + 2 * padding - kernel_size + 1\<close> and a pooling maps it to
  \<open>(h - kernel_size) div stride + 1\<close>. A batch normalisation keeps the shape; in training
  mode it needs more than one value per channel and raises \<open>ValueError\<close> otherwise. A linear
  layer replaces the last dimension. Activations and dropout keep the shape.
\<close>

fun layer_shape :: "bool \<Rightarrow> layer \<Rightarrow> nat list \<Rightarrow> error + nat list" where
  "layer_shape training (Conv2d in_channels out_channels kernel_size padding) shp =
     (case shp of
        [n, c, h, w] \<Rightarrow>
          if c \<noteq> in_channels \<or> h + 2 * padding < kernel_size \<or> w + 2 * padding < kernel_size
          then Inl RuntimeError
          else Inr [n, out_channels, h + 2 * padding - kernel_size + 1,
                    w + 2 * padding - kernel_size + 1]
      | [c, h, w] \<Rightarrow>
          if c \<noteq> in_channels \<or> h + 2 * padding < kernel_size \<or> w + 2 * padding < kernel_size
          then Inl RuntimeError
          else Inr [out_channels, h + 2 * padding - kernel_size + 1,
                    w + 2 * padding - kernel_size + 1]
      | _ \<Rightarrow> Inl RuntimeError)"
| "layer_shape training (BatchNorm2d num_features) shp =
     (case shp of
        [n, c, h, w] \<Rightarrow>
          if training \<and> n * h * w = 1 then Inl ValueError
          else if c \<noteq> num_features then Inl RuntimeError
          else Inr shp
      | _ \<Rightarrow> Inl ValueError)"
| "layer_shape training (BatchNorm1d num_features) shp =
     (case shp of
        [n, c] \<Rightarrow>
          if training \<and> n = 1 then Inl ValueError
          else if c \<noteq> num_features then Inl RuntimeError
          else Inr shp
      | [n, c, l] \<Rightarrow>
          if training \<and> n * l = 1 then Inl ValueError
          else if c \<noteq> num_features then Inl RuntimeError
          else Inr shp
      | _ \<Rightarrow> Inl ValueError)"
| "layer_shape training ReLU shp = Inr shp"
| "layer_shape training Tanh shp = Inr shp"
| "layer_shape training (MaxPool2d kernel_size stride) shp =
     (case shp of
        [n, c, h, w] \<Rightarrow>
          if stride = 0 \<or> h < kernel_size \<or> w < kernel_size then Inl RuntimeError
          else Inr [n, c, (h - kernel_size) div stride + 1, (w - kernel_size) div stride + 1]
      | [c, h, w] \<Rightarrow>
          if stride = 0 \<or> h < kernel_size \<or> w < kernel_size then Inl RuntimeError
          else Inr [c, (h - kernel_size) div stride + 1, (w - kernel_size) div stride + 1]
      | _ \<Rightarrow> Inl RuntimeError)"
| "layer_shape training (Dropout p) shp = Inr shp"
| "layer_shape training (Linear in_features out_features) shp =
     (if shp \<noteq> [] \<and> last shp = in_features then Inr (butlast shp @ [out_features])
      else Inl RuntimeError)"

text \<open>\<open>nn.Sequential\<close>: the layers one after the other.\<close>

fun sequential :: "bool \<Rightarrow> layer list \<Rightarrow> nat list \<Rightarrow> error + nat list" where
  "sequential training [] shp = Inr shp"
| "sequential training (l # ls) shp =
     (case layer_shape training l shp of
        Inl e \<Rightarrow> Inl e
      | Inr shp' \<Rightarrow> sequential training ls shp')"

text \<open>
  \<open>nn.GRU\<close> with \<open>batch_first=True\<close>: a batch of sequences \<open>(N, T, input_size)\<close> gives one hidden
  vector per step, of size \<open>hidden_size\<close> for each direction.
\<close>

record gru =
  input_size :: nat
  hidden_size :: nat
  num_layers :: nat
  bidirectional :: bool

definition gru_shape :: "gru \<Rightarrow> nat list \<Rightarrow> error + nat list" where
  "gru_shape g shp =
     (case shp of
        [n, t, f] \<Rightarrow>
          if f \<noteq> input_size g \<or> t = 0 then Inl RuntimeError
          else Inr [n, t, hidden_size g * (if bidirectional g then 2 else 1)]
      | _ \<Rightarrow> Inl RuntimeError)"

text \<open>The four parts of the model, as \<open>__init__\<close> builds them.\<close>

record crnn =
  crnn_features :: "layer list"
  crnn_gru :: gru
  crnn_attention :: "layer list"
  crnn_classifier :: "layer list"

definition PrecomputedFeatureCRNN :: "nat \<Rightarrow> nat \<Rightarrow> crnn" where
  "PrecomputedFeatureCRNN num_classes gru_hidden_size =
     (let input_channels = 1 in
      \<lparr>crnn_features =
         [Conv2d input_channels 64 3 1, BatchNorm2d 64, ReLU, MaxPool2d 2 2, Dropout (2 / 10),
          Conv2d 64 128 3 1, BatchNorm2d 128, ReLU, MaxPool2d 2 2, Dropout (3 / 10),
          Conv2d 128 256 3 1, BatchNorm2d 256, ReLU, MaxPool2d 2 2, Dropout (4 / 10)],
       crnn_gru = \<lparr>input_size = 16 * 256, hidden_size = gru_hidden_size, num_layers = 2,
                    bidirectional = True\<rparr>,
       crnn_attention = [Linear (gru_hidden_size * 2) 64, Tanh, Linear 64 1],
       crnn_classifier =
         [Linear (gru_hidden_size * 2) 512, BatchNorm1d 512, ReLU, Dropout (5 / 10),
          Linear 512 num_classes]\<rparr>)"

text \<open>
  The tensor operations of \<open>forward\<close> on shapes: \<open>permute(0, 3, 1, 2)\<close>;
  \<open>reshape(d0, d1, -1)\<close>, where the last dimension is inferred and must come out as a whole
  number; \<open>squeeze(-1)\<close> and \<open>squeeze(1)\<close>, which remove the dimension when its size is 1;
  \<open>unsqueeze(1)\<close>; \<open>F.softmax(dim=1)\<close>, which keeps the shape; and \<open>torch.bmm\<close> of
  \<open>(b, n, m)\<close> with \<open>(b, m, p)\<close>.
\<close>

definition permute_0312 :: "nat list \<Rightarrow> error + nat list" where
  "permute_0312 shp = (case shp of [a, b, c, d] \<Rightarrow> Inr [a, d, b, c] | _ \<Rightarrow> Inl RuntimeError)"

definition reshape_infer :: "nat list \<Rightarrow> nat \<Rightarrow> nat \<Rightarrow> error + nat list" where
  "reshape_infer shp d0 d1 =
     (if d0 * d1 = 0 \<or> prod_list shp mod (d0 * d1) \<noteq> 0 then Inl RuntimeError
      else Inr [d0, d1, prod_list shp div (d0 * d1)])"

definition squeeze_last :: "nat list \<Rightarrow> nat list" where
  "squeeze_last shp = (if shp \<noteq> [] \<and> last shp = 1 then butlast shp else shp)"

definition squeeze_1 :: "nat list \<Rightarrow> error + nat list" where
  "squeeze_1 shp =
     (case shp of
        a # b # rest \<Rightarrow> Inr (if b = 1 then a # rest else shp)
      | _ \<Rightarrow> Inl IndexError)"

definition unsqueeze_1 :: "nat list \<Rightarrow> error + nat list" where
  "unsqueeze_1 shp = (case shp of a # rest \<Rightarrow> Inr (a # 1 # rest) | [] \<Rightarrow> Inl IndexError)"

definition softmax_dim1 :: "nat list \<Rightarrow> error + nat list" where
  "softmax_dim1 shp = (if length shp < 2 then Inl IndexError else Inr shp)"

definition bmm_shape :: "nat list \<Rightarrow> nat list \<Rightarrow> error + nat list" where
  "bmm_shape a b =
     (case (a, b) of
        ([b1, n, m], [b2, m', p]) \<Rightarrow>
          if b1 = b2 \<and> m = m' then Inr [b1, n, p] else Inl RuntimeError
      | _ \<Rightarrow> Inl RuntimeError)"

text \<open>
  \<open>forward\<close> on the shape of the input \<open>x\<close>: the shapes of \<open>gru_out\<close>, of \<open>attn_weights\<close> (after
  \<open>unsqueeze\<close>), of \<open>context\<close> and of the returned \<open>output\<close>, or the first exception raised.
\<close>

record forward_shapes =
  gru_out_shape :: "nat list"
  attn_weights_shape :: "nat list"
  context_shape :: "nat list"
  output_shape :: "nat list"

definition forward :: "crnn \<Rightarrow> bool \<Rightarrow> nat list \<Rightarrow> error + forward_shapes" where
  "forward self training x =
     (case x of
        [] \<Rightarrow> Inl IndexError
      | batch_size # _ \<Rightarrow>
     (case sequential training (crnn_features self) x of
        Inl e \<Rightarrow> Inl e
      | Inr cnn_out \<Rightarrow>
     (case permute_0312 cnn_out of
        Inl e \<Rightarrow> Inl e
      | Inr permuted \<Rightarrow>
     (case reshape_infer permuted batch_size (permuted ! 1) of
        Inl e \<Rightarrow> Inl e
      | Inr steps \<Rightarrow>
     (case gru_shape (crnn_gru self) steps of
        Inl e \<Rightarrow> Inl e
      | Inr gru_out \<Rightarrow>
     (case sequential training (crnn_attention self) gru_out of
        Inl e \<Rightarrow> Inl e
      | Inr scores \<Rightarrow>
     (case softmax_dim1 (squeeze_last scores) of
        Inl e \<Rightarrow> Inl e
      | Inr attn_weights \<Rightarrow>
     (case unsqueeze_1 attn_weights of
        Inl e \<Rightarrow> Inl e
      | Inr attn_weights \<Rightarrow>
     (case bmm_shape attn_weights gru_out of
        Inl e \<Rightarrow> Inl e
      | Inr context \<Rightarrow>
     (case squeeze_1 context of
        Inl e \<Rightarrow> Inl e
      | Inr context \<Rightarrow>
     (case sequential training (crnn_classifier self) context of
        Inl e \<Rightarrow> Inl e
      | Inr output \<Rightarrow>
          Inr \<lparr>gru_out_shape = gru_out, attn_weights_shape = attn_weights,
               context_shape = context, output_shape = output\<rparr>)))))))))))"

text \<open>
  The attention pooling of \<open>forward\<close> on values, in exact arithmetic. \<open>gru_out\<close> is given as
  the list of the examples of the batch, each the list of its per-step hidden vectors;
  \<open>attention\<close> stands for \<open>self.attention\<close> followed by \<open>squeeze(-1)\<close>, which gives one score
  for each hidden vector. The scores of an example are normalised by the softmax over its
  steps, the weights are made a \<open>1 \<times> T\<close> matrix by \<open>unsqueeze(1)\<close> and multiplied with the
  \<open>T \<times> D\<close> matrix of the hidden vectors by \<open>torch.bmm\<close>, and \<open>squeeze(1)\<close> takes the one row
  of the product.
\<close>

definition softmax :: "real list \<Rightarrow> real list" where
  "softmax xs = map (\<lambda>x. exp x / sum_list (map exp xs)) xs"

definition matmul :: "real list list \<Rightarrow> real list list \<Rightarrow> real list list" where
  "matmul a b =
     map (\<lambda>row. map (\<lambda>j. sum_list (map (\<lambda>(r, brow). r * brow ! j) (zip row b)))
                    [0..<(if b = [] then 0 else length (hd b))]) a"

definition bmm :: "real list list list \<Rightarrow> real list list list \<Rightarrow> real list list list" where
  "bmm a b = map (\<lambda>(x, y). matmul x y) (zip a b)"

definition attention_pool ::
  "(real list \<Rightarrow> real) \<Rightarrow> real list list list \<Rightarrow> real list list \<times> real list list" where
  "attention_pool attention gru_out =
     (let scores = map (\<lambda>h. map attention h) gru_out;
          attn_weights = map softmax scores;
          context = map hd (bmm (map (\<lambda>w. [w]) attn_weights) gru_out)
      in (attn_weights, context))"

text \<open>
  The sum of the hidden vectors \<open>hs\<close>, each multiplied by its weight.
\<close>

definition weighted_sum :: "real list \<Rightarrow> real list list \<Rightarrow> real list" where
  "weighted_sum w hs =
     foldr (\<lambda>(a, h) acc. map (\<lambda>(x, y). a * x + y) (zip h acc)) (zip w hs)
       (replicate (length (hd hs)) 0)"

text \<open>Hidden vectors of two examples with two steps each.\<close>

definition example_gru_out :: "real list list list" where
  "example_gru_out = [[[1, 2], [3, 4]], [[0, 1], [1, 0]]]"

section \<open>Properties\<close>

subsection \<open>The training loop\<close>

lemma best_seen_snoc: "best_seen (vs @ [v]) = max v (best_seen vs)"
  by (simp add: best_seen_def)

lemma best_seen_nonneg: "0 \<le> best_seen vs"
  by (induction vs rule: rev_induct) (simp_all add: best_seen_snoc, simp add: best_seen_def)

lemma best_seen_Max: "best_seen vs = Max (insert 0 (set vs))"
proof -
  have "Max (set (0 # vs)) = fold max vs 0" by (rule Max.set_eq_fold)
  then show ?thesis by (simp add: best_seen_def)
qed

lemma streak_snoc:
  "streak (evs @ [ev]) = (if ev_saved ev = None then Suc (streak evs) else 0)"
  by (simp add: streak_def)

lemma file_after_snoc:
  "file_after f (evs @ [ev]) =
     (case ev_saved ev of None \<Rightarrow> file_after f evs | Some ck \<Rightarrow> Some (Checkpoint ck))"
  by (simp add: file_after_def split: option.splits)

lemma event_ok_append:
  "i < length evs \<Longrightarrow> event_ok auc (evs @ [ev]) i = event_ok auc evs i"
  by (simp add: event_ok_def nth_append)

lemma loop_inv_init: "loop_inv auc f (init_state f)"
  by (simp add: loop_inv_def init_state_def best_seen_def streak_def file_after_def)

lemma epoch_body_inv:
  assumes "loop_inv auc f s"
  shows "loop_inv auc f (fst (epoch_body (auc e) e s))"
proof -
  let ?L = "epoch_log s"
  let ?v = "compute_val_auc (auc e) (val_auc_history s)"
  from assms have h: "val_auc_history s = map ev_val_auc ?L"
    "scheduler_steps s = map ev_val_auc ?L"
    "best_auc s = best_seen (map ev_val_auc ?L)"
    "wait s = streak ?L" "model s = length ?L" "best_file s = file_after f ?L"
    and old: "\<forall>i<length ?L. event_ok auc ?L i"
    by (simp_all add: loop_inv_def)
  show ?thesis
  proof (cases "?v > best_auc s")
    case True
    then show ?thesis using h old
      by (simp add: loop_inv_def epoch_body_def Let_def best_seen_snoc streak_snoc
          file_after_snoc less_Suc_eq event_ok_append)
         (simp add: event_ok_def streak_snoc)
  next
    case False
    then show ?thesis using h old
      by (simp add: loop_inv_def epoch_body_def Let_def best_seen_snoc streak_snoc
          file_after_snoc less_Suc_eq event_ok_append)
         (simp add: event_ok_def streak_snoc)
  qed
qed

lemma epoch_loop_inv:
  "loop_inv auc f s \<Longrightarrow> loop_inv auc f (epoch_loop auc es s)"
proof (induction es arbitrary: s)
  case Nil
  then show ?case by simp
next
  case (Cons e es)
  from Cons.prems have "loop_inv auc f (fst (epoch_body (auc e) e s))"
    by (rule epoch_body_inv)
  then show ?case using Cons.IH
    by (cases "epoch_body (auc e) e s") auto
qed

lemma epoch_body_wait:
  "epoch_body r e s = (s', brk) \<Longrightarrow>
     \<exists>ev. epoch_log s' = epoch_log s @ [ev] \<and> ev_wait ev = wait s' \<and> ev_epoch ev = e \<and>
       (brk \<longleftrightarrow> wait s' \<ge> patience) \<and> wait s' \<le> Suc (wait s)"
  by (auto simp: epoch_body_def Let_def patience_def split: if_splits)

lemma epoch_loop_shape:
  assumes "wait s < patience" and "\<forall>ev\<in>set (epoch_log s). ev_wait ev < patience"
  shows "\<exists>n\<le>length es.
      map ev_epoch (epoch_log (epoch_loop auc es s)) = map ev_epoch (epoch_log s) @ take n es \<and>
      (\<forall>ev\<in>set (butlast (epoch_log (epoch_loop auc es s))). ev_wait ev < patience) \<and>
      wait (epoch_loop auc es s) \<le> patience \<and>
      (n < length es \<longrightarrow> wait (epoch_loop auc es s) = patience)"
  using assms
proof (induction es arbitrary: s)
  case Nil
  then show ?case by (auto dest: in_set_butlastD)
next
  case (Cons e es)
  obtain s' brk where b: "epoch_body (auc e) e s = (s', brk)"
    by (cases "epoch_body (auc e) e s")
  from epoch_body_wait [OF b] obtain ev where
    lg: "epoch_log s' = epoch_log s @ [ev]" and ew: "ev_wait ev = wait s'"
    and ee: "ev_epoch ev = e" and bk: "brk \<longleftrightarrow> wait s' \<ge> patience"
    and le: "wait s' \<le> Suc (wait s)"
    by blast
  show ?case
  proof (cases brk)
    case True
    with bk le Cons.prems(1) have "wait s' = patience" by simp
    then show ?thesis using b True Cons.prems(2) lg ee
      by (intro exI [of _ 1]) simp
  next
    case False
    with bk have lt: "wait s' < patience" by simp
    have all: "\<forall>x\<in>set (epoch_log s'). ev_wait x < patience"
      using Cons.prems(2) lt ew by (simp add: lg)
    from Cons.IH [OF lt all] obtain n where n: "n \<le> length es"
      "map ev_epoch (epoch_log (epoch_loop auc es s')) = map ev_epoch (epoch_log s') @ take n es"
      "\<forall>x\<in>set (butlast (epoch_log (epoch_loop auc es s'))). ev_wait x < patience"
      "wait (epoch_loop auc es s') \<le> patience"
      "n < length es \<longrightarrow> wait (epoch_loop auc es s') = patience"
      by blast
    then show ?thesis using b False ee
      by (intro exI [of _ "Suc n"]) (simp add: lg)
  qed
qed

lemma run_inv: "loop_inv auc f (run auc f)"
  unfolding run_def by (rule epoch_loop_inv [OF loop_inv_init])

lemma run_shape:
  "\<exists>n\<le>num_epochs.
      map ev_epoch (epoch_log (run auc f)) = [0..<n] \<and>
      (\<forall>ev\<in>set (butlast (epoch_log (run auc f))). ev_wait ev < patience) \<and>
      wait (run auc f) \<le> patience \<and>
      (n < num_epochs \<longrightarrow> wait (run auc f) = patience)"
proof -
  have "wait (init_state f) < patience" "\<forall>ev\<in>set (epoch_log (init_state f)). ev_wait ev < patience"
    by (simp_all add: init_state_def patience_def)
  from epoch_loop_shape [OF this, of "[0..<num_epochs]" auc]
  show ?thesis by (auto simp: run_def init_state_def min_def)
qed

lemma run_length: "length (epoch_log (run auc f)) \<le> num_epochs"
  using run_shape [of auc f] by (metis length_map length_upt diff_zero)

lemma run_epoch:
  assumes "i < length (epoch_log (run auc f))"
  shows "ev_epoch (epoch_log (run auc f) ! i) = i"
proof -
  from run_shape [of auc f] obtain n where "map ev_epoch (epoch_log (run auc f)) = [0..<n]"
    by blast
  then have "map ev_epoch (epoch_log (run auc f)) ! i = [0..<n] ! i" by simp
  moreover have "i < n" using assms \<open>map ev_epoch (epoch_log (run auc f)) = [0..<n]\<close>
    by (metis length_map length_upt diff_zero)
  ultimately show ?thesis using assms by simp
qed

lemma run_event_ok:
  "i < length (epoch_log (run auc f)) \<Longrightarrow> event_ok auc (epoch_log (run auc f)) i"
  using run_inv [of auc f] by (simp add: loop_inv_def)

lemma run_history: "val_auc_history (run auc f) = map ev_val_auc (epoch_log (run auc f))"
  and run_scheduler: "scheduler_steps (run auc f) = map ev_val_auc (epoch_log (run auc f))"
  and run_wait: "wait (run auc f) = streak (epoch_log (run auc f))"
  and run_file: "best_file (run auc f) = file_after f (epoch_log (run auc f))"
  using run_inv [of auc f] by (simp_all add: loop_inv_def)

lemma run_continues:
  assumes "Suc i < length (epoch_log (run auc f))"
  shows "ev_wait (epoch_log (run auc f) ! i) < patience"
proof -
  let ?L = "epoch_log (run auc f)"
  from run_shape [of auc f] have "\<forall>ev\<in>set (butlast ?L). ev_wait ev < patience" by blast
  moreover have "butlast ?L ! i = ?L ! i" "i < length (butlast ?L)"
    using assms by (simp_all add: nth_butlast)
  ultimately show ?thesis by (metis nth_mem)
qed

lemma run_last_wait:
  assumes "epoch_log (run auc f) \<noteq> []"
  shows "ev_wait (last (epoch_log (run auc f))) = wait (run auc f)"
proof -
  let ?L = "epoch_log (run auc f)"
  from assms have "length ?L - 1 < length ?L" by simp
  from run_event_ok [OF this] have "ev_wait (?L ! (length ?L - 1)) = streak (take (Suc (length ?L - 1)) ?L)"
    by (simp add: event_ok_def)
  with assms show ?thesis by (simp add: last_conv_nth run_wait)
qed

lemma run_early_stop:
  assumes "length (epoch_log (run auc f)) < num_epochs"
  shows "epoch_log (run auc f) \<noteq> [] \<and> ev_wait (last (epoch_log (run auc f))) = patience"
proof -
  let ?L = "epoch_log (run auc f)"
  from run_shape [of auc f] obtain n where n: "map ev_epoch ?L = [0..<n]"
    "n < num_epochs \<longrightarrow> wait (run auc f) = patience" by blast
  from n(1) have "length ?L = n" by (metis length_map length_upt diff_zero)
  with assms n(2) have w: "wait (run auc f) = patience" by simp
  have "?L \<noteq> []"
  proof
    assume "?L = []"
    then have "streak ?L = 0" by (simp add: streak_def)
    with w show False by (simp add: run_wait patience_def)
  qed
  then show ?thesis using w run_last_wait by simp
qed

lemma epoch_loop_append:
  assumes "wait s < patience"
  shows "epoch_loop auc (xs @ ys) s =
    (if wait (epoch_loop auc xs s) \<ge> patience then epoch_loop auc xs s
     else epoch_loop auc ys (epoch_loop auc xs s))"
  using assms
proof (induction xs arbitrary: s)
  case Nil
  then show ?case by simp
next
  case (Cons e es)
  obtain s' brk where b: "epoch_body (auc e) e s = (s', brk)"
    by (cases "epoch_body (auc e) e s")
  from epoch_body_wait [OF b] have bk: "brk \<longleftrightarrow> wait s' \<ge> patience" by blast
  show ?case
  proof (cases brk)
    case True
    with bk b show ?thesis by simp
  next
    case False
    with bk have "wait s' < patience" by simp
    from Cons.IH [OF this] show ?thesis using b False by simp
  qed
qed

lemma epoch_loop_log_grows:
  "\<exists>more. epoch_log (epoch_loop auc es s) = epoch_log s @ more"
proof (induction es arbitrary: s)
  case Nil
  then show ?case by simp
next
  case (Cons e es)
  obtain s' brk where b: "epoch_body (auc e) e s = (s', brk)"
    by (cases "epoch_body (auc e) e s")
  from epoch_body_wait [OF b] obtain ev where lg: "epoch_log s' = epoch_log s @ [ev]"
    by blast
  from Cons.IH [of s'] obtain more where "epoch_log (epoch_loop auc es s') = epoch_log s' @ more"
    by blast
  with lg b show ?case by (cases brk) simp_all
qed

lemma state_after_inv: "loop_inv auc f (state_after auc f n)"
  unfolding state_after_def by (rule epoch_loop_inv [OF loop_inv_init])

lemma state_after_shape:
  "\<exists>k\<le>n. length (epoch_log (state_after auc f n)) = k \<and>
     (k < n \<longrightarrow> wait (state_after auc f n) = patience)"
proof -
  have "wait (init_state f) < patience" "\<forall>ev\<in>set (epoch_log (init_state f)). ev_wait ev < patience"
    by (simp_all add: init_state_def patience_def)
  from epoch_loop_shape [OF this, of "[0..<n]" auc] obtain k where
    k1: "k \<le> length [0..<n]" and
    k2: "map ev_epoch (epoch_log (epoch_loop auc [0..<n] (init_state f))) =
         map ev_epoch (epoch_log (init_state f)) @ take k [0..<n]" and
    k3: "k < length [0..<n] \<longrightarrow> wait (epoch_loop auc [0..<n] (init_state f)) = patience"
    by blast
  have e: "epoch_log (init_state f) = []" by (simp add: init_state_def)
  from k2 have "length (map ev_epoch (epoch_log (state_after auc f n))) = length (take k [0..<n])"
    by (simp add: state_after_def e)
  with k1 have "length (epoch_log (state_after auc f n)) = k" by simp
  with k1 k3 show ?thesis by (simp add: state_after_def)
qed

lemma run_from_state_after:
  assumes "n \<le> num_epochs" and "wait (state_after auc f n) < patience"
  shows "run auc f = epoch_loop auc [n..<num_epochs] (state_after auc f n)"
proof -
  have w: "wait (init_state f) < patience" by (simp add: init_state_def patience_def)
  have "[0..<num_epochs] = [0..<n] @ [n..<num_epochs]"
    using assms(1) by (metis le0 upt_add_eq_append le_add_diff_inverse)
  then have "run auc f = epoch_loop auc ([0..<n] @ [n..<num_epochs]) (init_state f)"
    by (simp add: run_def)
  also have "\<dots> = epoch_loop auc [n..<num_epochs] (state_after auc f n)"
    using assms(2) by (simp add: epoch_loop_append [OF w] state_after_def)
  finally show ?thesis .
qed

lemma run_stopped_state_after:
  assumes "n \<le> num_epochs" and "wait (state_after auc f n) \<ge> patience"
  shows "run auc f = state_after auc f n"
proof -
  have w: "wait (init_state f) < patience" by (simp add: init_state_def patience_def)
  have "[0..<num_epochs] = [0..<n] @ [n..<num_epochs]"
    using assms(1) by (metis le0 upt_add_eq_append le_add_diff_inverse)
  then have "run auc f = epoch_loop auc ([0..<n] @ [n..<num_epochs]) (init_state f)"
    by (simp add: run_def)
  also have "\<dots> = state_after auc f n"
    using assms(2) by (simp add: epoch_loop_append [OF w] state_after_def)
  finally show ?thesis .
qed

lemma state_after_prefix:
  assumes "n \<le> num_epochs"
  shows "\<exists>more. epoch_log (run auc f) = epoch_log (state_after auc f n) @ more"
proof (cases "wait (state_after auc f n) < patience")
  case True
  from run_from_state_after [OF assms True] epoch_loop_log_grows show ?thesis by metis
next
  case False
  then have "wait (state_after auc f n) \<ge> patience" by simp
  from run_stopped_state_after [OF assms this] show ?thesis by simp
qed

text \<open>
  The state in which an executed epoch \<open>i\<close> starts and the state in which it ends.
\<close>

lemma state_at_epoch:
  assumes "i < length (epoch_log (run auc f))"
  shows "wait (state_after auc f i) < patience"
    and "epoch_log (state_after auc f i) = take i (epoch_log (run auc f))"
    and "state_after auc f (Suc i) = fst (epoch_body (auc i) i (state_after auc f i))"
    and "epoch_log (state_after auc f (Suc i)) = take (Suc i) (epoch_log (run auc f))"
proof -
  let ?L = "epoch_log (run auc f)"
  from assms run_length [of auc f] have i: "i < num_epochs" by simp
  then have le: "i \<le> num_epochs" and sle: "Suc i \<le> num_epochs" by simp_all
  from state_after_shape [of i auc f] obtain k where k: "k \<le> i"
    "length (epoch_log (state_after auc f i)) = k"
    "k < i \<longrightarrow> wait (state_after auc f i) = patience"
    by blast
  show w: "wait (state_after auc f i) < patience"
  proof (rule ccontr)
    assume "\<not> wait (state_after auc f i) < patience"
    then have "wait (state_after auc f i) \<ge> patience" by simp
    from run_stopped_state_after [OF le this] k assms show False by simp
  qed
  with k have len: "length (epoch_log (state_after auc f i)) = i" by auto
  from state_after_prefix [OF le, of auc f] obtain more where
    "?L = epoch_log (state_after auc f i) @ more" by blast
  with len show "epoch_log (state_after auc f i) = take i ?L" by simp
  have w0: "wait (init_state f) < patience" by (simp add: init_state_def patience_def)
  have "state_after auc f (Suc i) = epoch_loop auc ([0..<i] @ [i]) (init_state f)"
    by (simp add: state_after_def)
  also have "\<dots> = epoch_loop auc [i] (state_after auc f i)"
    using w by (simp only: epoch_loop_append [OF w0] state_after_def) simp
  also have "\<dots> = fst (epoch_body (auc i) i (state_after auc f i))"
    by (cases "epoch_body (auc i) i (state_after auc f i)") simp
  finally show st: "state_after auc f (Suc i) = fst (epoch_body (auc i) i (state_after auc f i))" .
  obtain s' brk where b: "epoch_body (auc i) i (state_after auc f i) = (s', brk)"
    by (cases "epoch_body (auc i) i (state_after auc f i)")
  from epoch_body_wait [OF b] obtain ev where "epoch_log s' = epoch_log (state_after auc f i) @ [ev]"
    by blast
  with st b len have len': "length (epoch_log (state_after auc f (Suc i))) = Suc i" by simp
  from state_after_prefix [OF sle, of auc f] obtain more' where
    "?L = epoch_log (state_after auc f (Suc i)) @ more'" by blast
  with len' show "epoch_log (state_after auc f (Suc i)) = take (Suc i) ?L" by simp
qed

lemma event_at_epoch:
  assumes "i < length (epoch_log (run auc f))"
  shows "ev_epoch (epoch_log (run auc f) ! i) = i \<and>
    ev_val_auc (epoch_log (run auc f) ! i) = val_auc_history (run auc f) ! i \<and>
    (ev_saved (epoch_log (run auc f) ! i) \<noteq> None \<longleftrightarrow>
       val_auc_history (run auc f) ! i > best_seen (take i (val_auc_history (run auc f)))) \<and>
    (ev_saved (epoch_log (run auc f) ! i) \<noteq> None \<longrightarrow>
       ev_saved (epoch_log (run auc f) ! i) =
         Some \<lparr>model_state_dict = Suc i, ckpt_epoch = i,
               ckpt_val_auc = val_auc_history (run auc f) ! i\<rparr> \<and>
       ev_wait (epoch_log (run auc f) ! i) = 0) \<and>
    (ev_saved (epoch_log (run auc f) ! i) = None \<longrightarrow>
       ev_wait (epoch_log (run auc f) ! i) =
         (if i = 0 then 0 else ev_wait (epoch_log (run auc f) ! (i - 1))) + 1)"
proof -
  let ?L = "epoch_log (run auc f)"
  note ok = run_event_ok [OF assms, unfolded event_ok_def]
  have ep: "ev_epoch (?L ! i) = i" by (rule run_epoch [OF assms])
  have hv: "val_auc_history (run auc f) ! i = ev_val_auc (?L ! i)"
    using assms by (simp add: run_history)
  have tk: "take i (val_auc_history (run auc f)) = map ev_val_auc (take i ?L)"
    by (simp add: run_history take_map)
  have snoc: "take (Suc i) ?L = take i ?L @ [?L ! i]"
    using assms by (rule take_Suc_conv_app_nth)
  have prev: "(if i = 0 then 0 else ev_wait (?L ! (i - 1))) = streak (take i ?L)"
  proof (cases i)
    case 0
    then show ?thesis by (simp add: streak_def)
  next
    case (Suc j)
    with assms have "j < length ?L" by simp
    from run_event_ok [OF this] show ?thesis using Suc by (simp add: event_ok_def)
  qed
  show ?thesis
    using ok ep by (simp add: hv tk snoc streak_snoc prev)
qed

lemma file_at_epoch:
  assumes "i < length (epoch_log (run auc f))"
  shows "best_auc (state_after auc f i) = best_seen (take i (val_auc_history (run auc f))) \<and>
    (if val_auc_history (run auc f) ! i > best_seen (take i (val_auc_history (run auc f)))
     then best_file (state_after auc f (Suc i)) =
            Some (Checkpoint \<lparr>model_state_dict = Suc i, ckpt_epoch = i,
                           ckpt_val_auc = val_auc_history (run auc f) ! i\<rparr>) \<and>
          best_auc (state_after auc f (Suc i)) = val_auc_history (run auc f) ! i \<and>
          wait (state_after auc f (Suc i)) = 0
     else best_file (state_after auc f (Suc i)) = best_file (state_after auc f i) \<and>
          best_auc (state_after auc f (Suc i)) = best_auc (state_after auc f i) \<and>
          wait (state_after auc f (Suc i)) = wait (state_after auc f i) + 1)"
proof -
  let ?L = "epoch_log (run auc f)"
  let ?h = "val_auc_history (run auc f)"
  let ?s = "state_after auc f i"
  note at = state_at_epoch [OF assms]
  from state_after_inv [of auc f i] have inv:
    "val_auc_history ?s = map ev_val_auc (epoch_log ?s)"
    "best_auc ?s = best_seen (map ev_val_auc (epoch_log ?s))"
    "model ?s = length (epoch_log ?s)"
    by (simp_all add: loop_inv_def)
  have tk: "map ev_val_auc (take i ?L) = take i ?h" by (simp add: run_history take_map)
  have hist: "val_auc_history ?s = take i ?h" using inv(1) at(2) tk by simp
  have best: "best_auc ?s = best_seen (take i ?h)" using inv(2) at(2) tk by simp
  have mdl: "model ?s = i" using inv(3) at(2) assms by simp
  note ok = run_event_ok [OF assms, unfolded event_ok_def]
  have "ev_val_auc (?L ! i) = compute_val_auc (auc i) (take i ?h)"
    using ok run_epoch [OF assms] tk by simp
  moreover have "?h ! i = ev_val_auc (?L ! i)" using assms by (simp add: run_history)
  ultimately have v: "compute_val_auc (auc i) (val_auc_history ?s) = ?h ! i"
    using hist by simp
  show ?thesis
    unfolding at(3) using v best mdl by (simp add: epoch_body_def Let_def)
qed

text \<open>
  C1. In every executed epoch \<open>i\<close> of a run, the best-model checkpoint is written if and only
  if the epoch's validation AUC is strictly greater than the best value seen before it
  (\<open>best_seen\<close> of the earlier epochs: their maximum, starting from the initial \<open>best_auc = 0\<close>,
  which is the value of \<open>best_auc\<close> when the epoch starts). When the AUC is greater, the file
  at \<open>best_model_path\<close> holds, when the epoch ends, the model parameters of that epoch, the
  epoch index and the AUC, and \<open>wait\<close> is 0; otherwise the file is what it was when the epoch
  started and \<open>wait\<close> is one more than it was.
\<close>

theorem checkpoint_iff_strict_improvement:
  assumes "i < length (epoch_log (run auc f))"
  shows "ev_epoch (epoch_log (run auc f) ! i) = i \<and>
    ev_val_auc (epoch_log (run auc f) ! i) = val_auc_history (run auc f) ! i \<and>
    (ev_saved (epoch_log (run auc f) ! i) \<noteq> None \<longleftrightarrow>
       val_auc_history (run auc f) ! i > best_seen (take i (val_auc_history (run auc f)))) \<and>
    (ev_saved (epoch_log (run auc f) ! i) \<noteq> None \<longrightarrow>
       ev_saved (epoch_log (run auc f) ! i) =
         Some \<lparr>model_state_dict = Suc i, ckpt_epoch = i,
               ckpt_val_auc = val_auc_history (run auc f) ! i\<rparr> \<and>
       ev_wait (epoch_log (run auc f) ! i) = 0) \<and>
    (ev_saved (epoch_log (run auc f) ! i) = None \<longrightarrow>
       ev_wait (epoch_log (run auc f) ! i) =
         (if i = 0 then 0 else ev_wait (epoch_log (run auc f) ! (i - 1))) + 1) \<and>
    epoch_log (state_after auc f i) = take i (epoch_log (run auc f)) \<and>
    epoch_log (state_after auc f (Suc i)) = take (Suc i) (epoch_log (run auc f)) \<and>
    best_auc (state_after auc f i) = best_seen (take i (val_auc_history (run auc f))) \<and>
    (if val_auc_history (run auc f) ! i > best_seen (take i (val_auc_history (run auc f)))
     then best_file (state_after auc f (Suc i)) =
            Some (Checkpoint \<lparr>model_state_dict = Suc i, ckpt_epoch = i,
                           ckpt_val_auc = val_auc_history (run auc f) ! i\<rparr>) \<and>
          best_auc (state_after auc f (Suc i)) = val_auc_history (run auc f) ! i \<and>
          wait (state_after auc f (Suc i)) = 0
     else best_file (state_after auc f (Suc i)) = best_file (state_after auc f i) \<and>
          best_auc (state_after auc f (Suc i)) = best_auc (state_after auc f i) \<and>
          wait (state_after auc f (Suc i)) = wait (state_after auc f i) + 1)"
  using event_at_epoch [OF assms] file_at_epoch [OF assms] state_at_epoch(2,4) [OF assms]
  by blast

theorem checkpoint_iff_strict_improvement_witness:
  "2 < length (epoch_log (run auc_rising None)) \<and>
   val_auc_history (run auc_rising None) ! 2
     > best_seen (take 2 (val_auc_history (run auc_rising None))) \<and>
   best_file (state_after auc_rising None 2) =
     Some (Checkpoint \<lparr>model_state_dict = 2, ckpt_epoch = 1, ckpt_val_auc = 1 / 5\<rparr>) \<and>
   best_file (state_after auc_rising None (Suc 2)) =
     Some (Checkpoint \<lparr>model_state_dict = Suc 2, ckpt_epoch = 2,
                    ckpt_val_auc = val_auc_history (run auc_rising None) ! 2\<rparr>) \<and>
   wait (state_after auc_rising None (Suc 2)) = 0 \<and>
   val_auc_history (run auc_rising None) ! 2 = 3 / 10"
proof -
  have len: "2 < length (epoch_log (run auc_rising None))" by code_simp
  have up: "val_auc_history (run auc_rising None) ! 2
     > best_seen (take 2 (val_auc_history (run auc_rising None)))"
    by code_simp
  have before: "best_file (state_after auc_rising None 2) =
     Some (Checkpoint \<lparr>model_state_dict = 2, ckpt_epoch = 1, ckpt_val_auc = 1 / 5\<rparr>)"
    by code_simp
  have v: "val_auc_history (run auc_rising None) ! 2 = 3 / 10" by code_simp
  from checkpoint_iff_strict_improvement [OF len] up
  have "best_file (state_after auc_rising None (Suc 2)) =
     Some (Checkpoint \<lparr>model_state_dict = Suc 2, ckpt_epoch = 2,
                    ckpt_val_auc = val_auc_history (run auc_rising None) ! 2\<rparr>) \<and>
    wait (state_after auc_rising None (Suc 2)) = 0"
    by simp
  with len up before v show ?thesis by simp
qed

text \<open>
  C2. A run executes the epochs \<open>0, 1, \<dots>\<close> in order and at most \<open>num_epochs = 50\<close> of them.
  After every executed epoch \<open>wait\<close> is the number of consecutive epochs, ending with this
  one, that did not save (an epoch does not save exactly when its AUC is not above the best
  seen before). An epoch that is followed by another one has a streak below
  \<open>patience = 7\<close>, and a run that ends before epoch 50 ends at an epoch whose streak is
  exactly 7: the loop stops at the first epoch whose streak reaches the patience, and at
  no shorter streak.
\<close>

theorem early_stopping_at_patience:
  "num_epochs = 50 \<and> patience = 7 \<and>
   length (epoch_log (run auc f)) \<le> num_epochs \<and>
   (\<forall>i<length (epoch_log (run auc f)).
      ev_epoch (epoch_log (run auc f) ! i) = i \<and>
      (ev_saved (epoch_log (run auc f) ! i) = None \<longleftrightarrow>
         val_auc_history (run auc f) ! i \<le> best_seen (take i (val_auc_history (run auc f)))) \<and>
      ev_wait (epoch_log (run auc f) ! i) = streak (take (Suc i) (epoch_log (run auc f))) \<and>
      (Suc i < length (epoch_log (run auc f)) \<longrightarrow>
         ev_wait (epoch_log (run auc f) ! i) < patience)) \<and>
   (length (epoch_log (run auc f)) < num_epochs \<longrightarrow>
      epoch_log (run auc f) \<noteq> [] \<and> ev_wait (last (epoch_log (run auc f))) = patience)"
proof -
  let ?L = "epoch_log (run auc f)"
  let ?h = "val_auc_history (run auc f)"
  have per: "ev_epoch (?L ! i) = i \<and>
      (ev_saved (?L ! i) = None \<longleftrightarrow> ?h ! i \<le> best_seen (take i ?h)) \<and>
      ev_wait (?L ! i) = streak (take (Suc i) ?L) \<and>
      (Suc i < length ?L \<longrightarrow> ev_wait (?L ! i) < patience)" if i: "i < length ?L" for i
  proof -
    note ok = run_event_ok [OF i, unfolded event_ok_def]
    have hv: "?h ! i = ev_val_auc (?L ! i)" using i by (simp add: run_history)
    have tk: "take i ?h = map ev_val_auc (take i ?L)" by (simp add: run_history take_map)
    have "ev_saved (?L ! i) = None \<longleftrightarrow> ?h ! i \<le> best_seen (take i ?h)"
      using ok by (simp add: tk hv)
    then show ?thesis using ok run_epoch [OF i] run_continues [of i auc f] by simp
  qed
  then have every: "\<forall>i<length ?L. ev_epoch (?L ! i) = i \<and>
      (ev_saved (?L ! i) = None \<longleftrightarrow> ?h ! i \<le> best_seen (take i ?h)) \<and>
      ev_wait (?L ! i) = streak (take (Suc i) ?L) \<and>
      (Suc i < length ?L \<longrightarrow> ev_wait (?L ! i) < patience)"
    by blast
  have cs: "num_epochs = 50" "patience = 7"
    by (simp_all add: num_epochs_def patience_def)
  from cs run_length [of auc f] every run_early_stop [of auc f] show ?thesis
    by blast
qed

theorem early_stopping_at_patience_witness:
  "length (epoch_log (run auc_rising None)) < num_epochs \<and>
   Suc 8 < length (epoch_log (run auc_rising None)) \<and>
   ev_wait (epoch_log (run auc_rising None) ! 8) < patience \<and>
   ev_wait (last (epoch_log (run auc_rising None))) = patience"
proof -
  have a: "length (epoch_log (run auc_rising None)) < num_epochs" by code_simp
  have b: "Suc 8 < length (epoch_log (run auc_rising None))" by code_simp
  from b have c: "8 < length (epoch_log (run auc_rising None))" by simp
  from early_stopping_at_patience [of auc_rising None] a b c show ?thesis by blast
qed

lemma file_after_none:
  "\<forall>ev\<in>set evs. ev_saved ev = None \<Longrightarrow> file_after f evs = f"
  by (induction evs rule: rev_induct) (simp_all add: file_after_snoc, simp add: file_after_def)

text \<open>
  C5, as amended. An epoch whose AUC computation fails is completed like any other (the history
  has one entry per executed epoch). Its validation AUC is the value of the epoch before
  it, and 0 when it is the first epoch, where there is no earlier value. That value is the
  one appended to the history, passed to the scheduler and compared with the best seen
  in the checkpoint decision, and the loop goes on with the next epoch unless the patience
  or the maximum number of epochs is reached.
\<close>

theorem auc_failure_reuses_last_value:
  assumes "i < length (epoch_log (run auc f))" and "auc i = None"
  shows "length (val_auc_history (run auc f)) = length (epoch_log (run auc f)) \<and>
    val_auc_history (run auc f) ! i =
      (if i = 0 then 0 else val_auc_history (run auc f) ! (i - 1)) \<and>
    scheduler_steps (run auc f) ! i = val_auc_history (run auc f) ! i \<and>
    ev_val_auc (epoch_log (run auc f) ! i) = val_auc_history (run auc f) ! i \<and>
    (ev_saved (epoch_log (run auc f) ! i) \<noteq> None \<longleftrightarrow>
       val_auc_history (run auc f) ! i > best_seen (take i (val_auc_history (run auc f)))) \<and>
    (Suc i < num_epochs \<and> ev_wait (epoch_log (run auc f) ! i) < patience \<longrightarrow>
       Suc i < length (epoch_log (run auc f)))"
proof -
  let ?L = "epoch_log (run auc f)"
  let ?h = "val_auc_history (run auc f)"
  note ok = run_event_ok [OF assms(1), unfolded event_ok_def]
  have ep: "ev_epoch (?L ! i) = i" by (rule run_epoch [OF assms(1)])
  have hv: "?h ! i = ev_val_auc (?L ! i)" using assms(1) by (simp add: run_history)
  have tk: "take i ?h = map ev_val_auc (take i ?L)" by (simp add: run_history take_map)
  have len: "length ?h = length ?L" by (simp add: run_history)
  have val: "?h ! i = (if i = 0 then 0 else ?h ! (i - 1))"
  proof (cases i)
    case 0
    then show ?thesis using ok ep assms(2) hv by (simp add: compute_val_auc_def)
  next
    case (Suc j)
    with assms(1) have j: "j < length ?L" by simp
    then have "take i ?L = take j ?L @ [?L ! j]"
      using Suc by (simp add: take_Suc_conv_app_nth)
    then have "ev_val_auc (?L ! i) = ev_val_auc (?L ! j)"
      using ok ep assms(2) by (simp add: compute_val_auc_def)
    then show ?thesis using Suc j assms(1) by (simp add: run_history)
  qed
  have cont: "Suc i < num_epochs \<and> ev_wait (?L ! i) < patience \<longrightarrow> Suc i < length ?L"
  proof (intro impI, rule ccontr)
    assume a: "Suc i < num_epochs \<and> ev_wait (?L ! i) < patience" and "\<not> Suc i < length ?L"
    with assms(1) have last: "Suc i = length ?L" by simp
    with a have "length ?L < num_epochs" by simp
    from run_early_stop [OF this] have "ev_wait (last ?L) = patience" by simp
    moreover have "last ?L = ?L ! i" using last assms(1)
      by (metis diff_Suc_1 last_conv_nth length_greater_0_conv less_nat_zero_code list.size(3))
    ultimately show False using a by simp
  qed
  have sch: "scheduler_steps (run auc f) ! i = ?h ! i"
    by (simp add: run_scheduler run_history)
  have sv: "ev_saved (?L ! i) \<noteq> None \<longleftrightarrow> ?h ! i > best_seen (take i ?h)"
    using ok by (simp add: tk hv)
  from len val sch hv [symmetric] sv cont show ?thesis by blast
qed

theorem auc_failure_reuses_last_value_witness:
  "4 < length (epoch_log (run auc_rising None)) \<and> auc_rising 4 = None \<and>
   val_auc_history (run auc_rising None) ! 4 = val_auc_history (run auc_rising None) ! 3 \<and>
   scheduler_steps (run auc_rising None) ! 4 = val_auc_history (run auc_rising None) ! 4 \<and>
   Suc 4 < length (epoch_log (run auc_rising None))"
proof -
  have len: "4 < length (epoch_log (run auc_rising None))" by code_simp
  have fail: "auc_rising 4 = None" by (simp add: auc_rising_def)
  have more: "Suc 4 < num_epochs \<and> ev_wait (epoch_log (run auc_rising None) ! 4) < patience"
    by code_simp
  from auc_failure_reuses_last_value [OF len fail] more len fail show ?thesis by simp
qed

text \<open>
  C5 as stated fails in the first epoch: the computation fails, no earlier value exists,
  and the value used is the constant 0.
\<close>

theorem auc_failure_first_epoch_counterexample:
  "auc_all_fail 0 = None \<and> 0 < length (epoch_log (run auc_all_fail None)) \<and>
   previous_auc (val_auc_history (run auc_all_fail None)) 0 = None \<and>
   val_auc_history (run auc_all_fail None) ! 0 = 0"
  by code_simp

lemma no_improvement_no_save:
  assumes "\<forall>v\<in>set (val_auc_history (run auc f)). v \<le> 0"
  shows "\<forall>ev\<in>set (epoch_log (run auc f)). ev_saved ev = None"
proof
  let ?L = "epoch_log (run auc f)"
  fix ev assume "ev \<in> set ?L"
  then obtain i where i: "i < length ?L" "ev = ?L ! i" by (metis in_set_conv_nth)
  then have "ev_val_auc ev \<in> set (val_auc_history (run auc f))"
    by (simp add: run_history)
  with assms have "ev_val_auc ev \<le> 0" by blast
  moreover have "0 \<le> best_seen (map ev_val_auc (take i ?L))" by (rule best_seen_nonneg)
  ultimately show "ev_saved ev = None"
    using run_event_ok [OF i(1)] i(2) by (simp add: event_ok_def)
qed

lemma no_save_file_unchanged:
  assumes "\<forall>ev\<in>set (epoch_log (run auc f)). ev_saved ev = None" and "n \<le> num_epochs"
  shows "best_file (state_after auc f n) = f"
proof -
  from state_after_prefix [OF assms(2), of auc f] obtain more where
    "epoch_log (run auc f) = epoch_log (state_after auc f n) @ more" by blast
  with assms(1) have "\<forall>ev\<in>set (epoch_log (state_after auc f n)). ev_saved ev = None"
    by simp
  then have "file_after f (epoch_log (state_after auc f n)) = f" by (rule file_after_none)
  with state_after_inv [of auc f n] show ?thesis by (simp add: loop_inv_def)
qed

text \<open>
  C10, as amended. If no epoch of a run has a validation AUC above 0, no epoch writes the
  checkpoint: the file at \<open>best_model_path\<close> is, at every point of the loop and at its end,
  what it was before the run. The reload after the loop then fails with
  \<open>FileNotFoundError\<close> when there was no file before the run, and it fails as well when the
  older file is no checkpoint, cannot be read, or has parameters that do not fit the model;
  when the older file is a checkpoint that can be read and fits, the reload succeeds and
  the function returns the parameters of that older file.
\<close>

theorem no_improvement_no_checkpoint:
  assumes "\<forall>v\<in>set (val_auc_history (run auc f)). v \<le> 0"
  shows "(\<forall>ev\<in>set (epoch_log (run auc f)). ev_saved ev = None) \<and>
    (\<forall>n\<le>num_epochs. best_file (state_after auc f n) = f) \<and>
    best_file (run auc f) = f \<and>
    train_precomputed_crnn lib True auc f =
      (f, case f of
            None \<Rightarrow> Inl FileNotFoundError
          | Some OtherContent \<Rightarrow> Inl UnpicklingError
          | Some (Checkpoint ck) \<Rightarrow>
              if \<not> torch_load_reads lib ck then Inl UnpicklingError
              else if \<not> state_dict_fits lib ck then Inl RuntimeError
              else Inr (Some \<lparr>returned_model = model_state_dict ck,
                              returned_history = val_auc_history (run auc f)\<rparr>))"
proof -
  note none = no_improvement_no_save [OF assms]
  then have bf: "best_file (run auc f) = f" by (simp add: run_file file_after_none)
  have every: "\<forall>n\<le>num_epochs. best_file (state_after auc f n) = f"
    using no_save_file_unchanged [OF none] by blast
  have "train_precomputed_crnn lib True auc f =
      (f, case f of
            None \<Rightarrow> Inl FileNotFoundError
          | Some OtherContent \<Rightarrow> Inl UnpicklingError
          | Some (Checkpoint ck) \<Rightarrow>
              if \<not> torch_load_reads lib ck then Inl UnpicklingError
              else if \<not> state_dict_fits lib ck then Inl RuntimeError
              else Inr (Some \<lparr>returned_model = model_state_dict ck,
                              returned_history = val_auc_history (run auc f)\<rparr>))"
  proof (cases f)
    case None
    with bf show ?thesis
      by (simp add: train_precomputed_crnn_def Let_def torch_load_def)
  next
    case (Some stored)
    with bf show ?thesis
      by (cases stored)
        (simp_all add: train_precomputed_crnn_def Let_def torch_load_def load_state_dict_def)
  qed
  with none every bf show ?thesis by blast
qed

theorem no_improvement_no_checkpoint_witness:
  "val_auc_history (run auc_all_fail None) = [0, 0, 0, 0, 0, 0, 0] \<and>
   best_file (run auc_all_fail None) = None \<and>
   train_precomputed_crnn loads_all True auc_all_fail None = (None, Inl FileNotFoundError) \<and>
   train_precomputed_crnn reads_none True auc_all_fail (Some (Checkpoint stale_checkpoint)) =
     (Some (Checkpoint stale_checkpoint), Inl UnpicklingError)"
proof -
  have hist: "val_auc_history (run auc_all_fail None) = [0, 0, 0, 0, 0, 0, 0]" by code_simp
  then have h: "\<forall>v\<in>set (val_auc_history (run auc_all_fail None)). v \<le> 0" by simp
  have "val_auc_history (run auc_all_fail (Some (Checkpoint stale_checkpoint))) =
      [0, 0, 0, 0, 0, 0, 0]"
    by code_simp
  then have h': "\<forall>v\<in>set (val_auc_history (run auc_all_fail (Some (Checkpoint stale_checkpoint)))).
      v \<le> 0"
    by simp
  from no_improvement_no_checkpoint [OF h, of loads_all]
    no_improvement_no_checkpoint [OF h', of reads_none] hist
  show ?thesis by (simp add: reads_none_def)
qed

text \<open>
  C10 as stated fails when a checkpoint of an earlier run that can be read and fits the
  model is still at \<open>best_model_path\<close>: every epoch fails to compute an AUC, nothing is
  written, and the reload succeeds and returns the parameters of the old file.
\<close>

theorem stale_checkpoint_reload_counterexample:
  "val_auc_history (run auc_all_fail (Some (Checkpoint stale_checkpoint))) =
     [0, 0, 0, 0, 0, 0, 0] \<and>
   train_precomputed_crnn loads_all True auc_all_fail (Some (Checkpoint stale_checkpoint)) =
     (Some (Checkpoint stale_checkpoint),
      Inr (Some \<lparr>returned_model = 12, returned_history = [0, 0, 0, 0, 0, 0, 0]\<rparr>))"
  by code_simp

subsection \<open>Removing the classes with a single example\<close>

lemma bincount_nth:
  assumes "bincount y = Inr cs" and "c < length cs"
  shows "cs ! c = count_list y (int c)"
  using assms by (auto simp: bincount_def split: if_splits simp del: upt_Suc)

lemma bincount_length:
  assumes "bincount y = Inr cs" and "v \<in> set y"
  shows "0 \<le> v \<and> nat v < length cs"
proof -
  from assms have nn: "\<forall>v\<in>set y. 0 \<le> v"
    and cs: "length cs = Suc (nat (Max (set y)))"
    by (auto simp: bincount_def split: if_splits simp del: upt_Suc)
  have "v \<le> Max (set y)" using assms(2) by simp
  then have "nat v \<le> nat (Max (set y))" by (rule nat_mono)
  with nn assms(2) cs show ?thesis by simp
qed

lemma bincount_one:
  assumes "bincount y = Inr cs"
  shows "1 \<in> set cs \<longleftrightarrow> (\<exists>v\<in>set y. count_list y v = 1)"
proof
  assume "1 \<in> set cs"
  then obtain c where c: "c < length cs" "cs ! c = 1" by (metis in_set_conv_nth)
  with bincount_nth [OF assms c(1)] have one: "count_list y (int c) = 1" by simp
  then have "int c \<in> set y" by (metis count_list_0_iff zero_neq_one)
  with one show "\<exists>v\<in>set y. count_list y v = 1" by blast
next
  assume "\<exists>v\<in>set y. count_list y v = 1"
  then obtain v where v: "v \<in> set y" "count_list y v = 1" by blast
  from bincount_length [OF assms v(1)] have b: "0 \<le> v" "nat v < length cs" by simp_all
  with bincount_nth [OF assms, of "nat v"] v(2) have "cs ! nat v = 1" by simp
  with b(2) show "1 \<in> set cs" by (metis nth_mem)
qed

lemma isin_where:
  assumes "bincount y = Inr cs"
  shows "isin y (where_ge2 cs) = map (\<lambda>v. 2 \<le> count_list y v) y"
proof -
  have "v \<in> set (map int (where_ge2 cs)) \<longleftrightarrow> 2 \<le> count_list y v" if v: "v \<in> set y" for v
  proof -
    from bincount_length [OF assms v] have b: "0 \<le> v" "nat v < length cs" by simp_all
    with bincount_nth [OF assms, of "nat v"] have n: "cs ! nat v = count_list y v" by simp
    show ?thesis
    proof
      assume "v \<in> set (map int (where_ge2 cs))"
      then obtain c where "v = int c" "c < length cs" "2 \<le> cs ! c"
        by (auto simp: where_ge2_def)
      with n show "2 \<le> count_list y v" by simp
    next
      assume "2 \<le> count_list y v"
      with n b have "nat v \<in> set (where_ge2 cs)" by (simp add: where_ge2_def)
      then have "int (nat v) \<in> set (map int (where_ge2 cs))" by (metis image_eqI set_map)
      with b show "v \<in> set (map int (where_ge2 cs))" by simp
    qed
  qed
  then show ?thesis by (simp add: isin_def)
qed

lemma boolean_index_map: "boolean_index y (map P y) = Inr (filter P y)"
  by (induction y) (simp_all add: boolean_index_def)

lemma boolean_index_zip:
  "length X = length y \<Longrightarrow>
     boolean_index X (map P y) = Inr (map fst (filter (\<lambda>(x, v). P v) (zip X y)))"
  by (induction X y rule: list_induct2) (simp_all add: boolean_index_def)

lemma zip_filtered:
  "length X = length y \<Longrightarrow>
     zip (map fst (filter (\<lambda>(x, v). P v) (zip X y))) (filter P y) =
       filter (\<lambda>(x, v). P v) (zip X y)"
  by (induction X y rule: list_induct2) simp_all

lemma snd_filtered:
  "length X = length y \<Longrightarrow> map snd (filter (\<lambda>(x, v). P v) (zip X y)) = filter P y"
  by (induction X y rule: list_induct2) simp_all

lemma count_list_filter: "count_list (filter P y) c = (if P c then count_list y c else 0)"
  by (induction y) auto

lemma bincount_total: "\<forall>v\<in>set y. 0 \<le> v \<Longrightarrow> \<exists>cs. bincount y = Inr cs"
  by (auto simp: bincount_def)

lemma filter_singletons_eq:
  assumes "\<forall>v\<in>set y. 0 \<le> v" and "length X = length y"
  shows "filter_singletons X y =
    Inr (map fst (filter (\<lambda>(x, v). 2 \<le> count_list y v) (zip X y)),
         filter (\<lambda>v. 2 \<le> count_list y v) y)"
proof -
  from bincount_total [OF assms(1)] obtain cs where cs: "bincount y = Inr cs" by blast
  show ?thesis
  proof (cases "1 \<in> set cs")
    case True
    then show ?thesis
      using cs assms(2)
      by (simp add: filter_singletons_def isin_where [OF cs] boolean_index_map
          boolean_index_zip)
  next
    case False
    with bincount_one [OF cs] have no: "\<forall>v\<in>set y. count_list y v \<noteq> 1" by blast
    have two: "2 \<le> count_list y v" if "v \<in> set y" for v
    proof -
      from that have "count_list y v \<noteq> 0" by (simp add: count_list_0_iff)
      with no that show ?thesis by (metis One_nat_def Suc_1 Suc_leI neq0_conv le_neq_implies_less)
    qed
    then have y: "filter (\<lambda>v. 2 \<le> count_list y v) y = y" by (simp add: filter_id_conv)
    have "\<forall>p\<in>set (zip X y). (\<lambda>(x, v). 2 \<le> count_list y v) p"
      using two by (auto dest: set_zip_rightD)
    then have "filter (\<lambda>(x, v). 2 \<le> count_list y v) (zip X y) = zip X y"
      by (simp add: filter_id_conv)
    then show ?thesis using cs False y assms(2) by (simp add: filter_singletons_def)
  qed
qed

text \<open>
  C3. For label arrays of class ids (non-negative integers) with one feature entry per
  label, the filtering step succeeds; it retains, in order and with their feature entries,
  exactly the examples whose class has at least 2 examples, so no example of such a class
  is removed and its class keeps its count; and every class that is still present has at
  least 2 examples.
\<close>

theorem singleton_filter_keeps_classes_of_two:
  assumes "\<forall>v\<in>set y. 0 \<le> v" and "length X = length y"
  shows "\<exists>X' y'. filter_singletons X y = Inr (X', y') \<and>
    length X' = length y' \<and>
    zip X' y' = filter (\<lambda>(x, v). 2 \<le> count_list y v) (zip X y) \<and>
    (\<forall>c\<in>set y'. 2 \<le> count_list y' c) \<and>
    (\<forall>c. 2 \<le> count_list y c \<longrightarrow> count_list y' c = count_list y c)"
proof -
  let ?X' = "map fst (filter (\<lambda>(x, v). 2 \<le> count_list y v) (zip X y))"
  let ?y' = "filter (\<lambda>v. 2 \<le> count_list y v) y"
  have z: "zip ?X' ?y' = filter (\<lambda>(x, v). 2 \<le> count_list y v) (zip X y)"
    by (rule zip_filtered [OF assms(2)])
  have "map snd (filter (\<lambda>(x, v). 2 \<le> count_list y v) (zip X y)) = ?y'"
    by (rule snd_filtered [OF assms(2)])
  then have len: "length ?X' = length ?y'" by (metis length_map)
  have cnt: "count_list ?y' c = (if 2 \<le> count_list y c then count_list y c else 0)" for c
    by (rule count_list_filter)
  have "\<forall>c\<in>set ?y'. 2 \<le> count_list ?y' c" by (simp add: cnt)
  with filter_singletons_eq [OF assms] len z cnt show ?thesis by simp
qed

theorem singleton_filter_keeps_classes_of_two_witness:
  "filter_singletons [''a'', ''b'', ''c'', ''d'', ''e''] [3, 1, 3, 0, 0] =
     Inr ([''a'', ''c'', ''d'', ''e''], [3, 3, 0, 0]) \<and>
   count_list [3, 3, 0, 0 :: int] 3 = count_list [3, 1, 3, 0, 0 :: int] 3 \<and>
   2 \<le> count_list [3, 3, 0, 0 :: int] 0"
proof -
  have a: "\<forall>v\<in>set [3, 1, 3, 0, 0 :: int]. 0 \<le> v" by simp
  have b: "length [''a'', ''b'', ''c'', ''d'', ''e''] = length [3, 1, 3, 0, 0 :: int]" by simp
  have r: "filter_singletons [''a'', ''b'', ''c'', ''d'', ''e''] [3, 1, 3, 0, 0] =
     Inr ([''a'', ''c'', ''d'', ''e''], [3, 3, 0, 0])"
    by code_simp
  from singleton_filter_keeps_classes_of_two [OF a b] obtain X' y' where
    fs: "filter_singletons [''a'', ''b'', ''c'', ''d'', ''e''] [3, 1, 3, 0, 0] = Inr (X', y')"
    and every: "\<forall>c\<in>set y'. 2 \<le> count_list y' c"
    and keep: "\<forall>c. 2 \<le> count_list [3, 1, 3, 0, 0 :: int] c \<longrightarrow>
       count_list y' c = count_list [3, 1, 3, 0, 0] c"
    by blast
  from fs r have y': "y' = [3, 3, 0, 0]" by simp
  from every have two: "2 \<le> count_list [3, 3, 0, 0 :: int] 0" unfolding y' by simp
  from keep [rule_format, of 3]
  have "count_list [3, 3, 0, 0 :: int] 3 = count_list [3, 1, 3, 0, 0 :: int] 3"
    unfolding y' by simp
  with r two show ?thesis by simp
qed

subsection \<open>The dataset wrapper\<close>

lemma getitem_entry:
  assumes "py_index (features ds) idx = Inr feature" and "py_index (labels ds) idx = Inr l"
  shows "getitem ds idx =
    Inr (if length (shape feature) = 2 then newaxis feature else feature, l)"
  using assms by (simp add: getitem_def)

text \<open>
  C4. For an index at which the dataset has a feature entry and a label, where the stored
  entry is 2-D (\<open>h \<times> w\<close>) or has a channel axis of size 1 in front (\<open>1 \<times> h \<times> w\<close>), the returned
  feature has the shape \<open>1 \<times> h \<times> w\<close>, the elements of the stored entry, and comes with the
  label of that index.
\<close>

theorem getitem_channel_dimension:
  assumes "py_index (features ds) idx = Inr feature" and "py_index (labels ds) idx = Inr l"
    and "shape feature = [h, w] \<or> shape feature = [1, h, w]"
  shows "\<exists>t. getitem ds idx = Inr (t, l) \<and> shape t = [1, h, w] \<and> elems t = elems feature"
  using assms(3) getitem_entry [OF assms(1,2)] by (auto simp: newaxis_def)

theorem getitem_channel_dimension_witness:
  "getitem example_dataset 0 = Inr (\<lparr>shape = [1, 2, 3], elems = [1, 2, 3, 4, 5, 6]\<rparr>, 7) \<and>
   getitem example_dataset (- 1) = Inr (\<lparr>shape = [1, 2, 3], elems = [6, 5, 4, 3, 2, 1]\<rparr>, 9)"
proof -
  have f0: "py_index (features example_dataset) 0 = Inr \<lparr>shape = [2, 3], elems = [1, 2, 3, 4, 5, 6]\<rparr>"
    by (simp add: py_index_def example_dataset_def)
  have l0: "py_index (labels example_dataset) 0 = Inr 7"
    by (simp add: py_index_def example_dataset_def)
  have f1: "py_index (features example_dataset) (- 1) =
      Inr \<lparr>shape = [1, 2, 3], elems = [6, 5, 4, 3, 2, 1]\<rparr>"
    by (simp add: py_index_def example_dataset_def)
  have l1: "py_index (labels example_dataset) (- 1) = Inr 9"
    by (simp add: py_index_def example_dataset_def)
  from getitem_channel_dimension [OF f0 l0, of 2 3]
  have a: "getitem example_dataset 0 = Inr (\<lparr>shape = [1, 2, 3], elems = [1, 2, 3, 4, 5, 6]\<rparr>, 7)"
    by auto
  from getitem_channel_dimension [OF f1 l1, of 2 3]
  have b: "getitem example_dataset (- 1) =
      Inr (\<lparr>shape = [1, 2, 3], elems = [6, 5, 4, 3, 2, 1]\<rparr>, 9)"
    by auto
  from a b show ?thesis by simp
qed

text \<open>
  An entry of any other rank or shape is returned as it is stored.
\<close>

lemma getitem_other_rank:
  assumes "py_index (features ds) idx = Inr feature" and "py_index (labels ds) idx = Inr l"
    and "length (shape feature) \<noteq> 2"
  shows "getitem ds idx = Inr (feature, l)"
  using assms(3) getitem_entry [OF assms(1,2)] by simp

subsection \<open>The scoring metric\<close>

lemma find_common_type_numeric_iff:
  "is_numeric_dtype (find_common_type ts) \<longleftrightarrow>
     dt_object \<notin> set ts \<and> \<not> (dt_bool \<in> set ts \<and> (dt_int64 \<in> set ts \<or> dt_float64 \<in> set ts))"
proof (cases "ts = []")
  case True
  then show ?thesis by (simp add: find_common_type_def)
next
  case ne: False
  show ?thesis
  proof (cases "\<forall>t\<in>set ts. t = hd ts")
    case True
    with ne have r: "find_common_type ts = hd ts" by (simp add: find_common_type_def)
    from ne have "hd ts \<in> set ts" by simp
    with True have s: "set ts = {hd ts}" by blast
    show ?thesis unfolding r s by (cases "hd ts") simp_all
  next
    case False
    with ne have "find_common_type ts =
        (if dt_bool \<in> set ts \<and> (dt_int64 \<in> set ts \<or> dt_float64 \<in> set ts) then dt_object
         else if dt_object \<in> set ts then dt_object else dt_float64)"
      by (simp only: find_common_type_def if_False)
    then show ?thesis by simp
  qed
qed

text \<open>
  When the type check of \<open>score\<close> passes: no column is of type \<open>object\<close>, and boolean columns
  are not mixed with integer or float columns.
\<close>

lemma values_dtype_numeric_iff:
  "is_numeric_dtype (values_dtype df) \<longleftrightarrow>
     dt_object \<notin> dtype_of ` snd ` set df \<and>
     \<not> (dt_bool \<in> dtype_of ` snd ` set df \<and>
        (dt_int64 \<in> dtype_of ` snd ` set df \<or> dt_float64 \<in> dtype_of ` snd ` set df))"
proof -
  have "set (map (\<lambda>(x, c). dtype_of c) df) = dtype_of ` snd ` set df"
    by (auto simp: image_iff split: prod.splits) force
  then show ?thesis by (simp add: values_dtype_def find_common_type_numeric_iff)
qed

lemma bad_dtypes_empty_iff:
  "bad_dtypes df = [] \<longleftrightarrow> dt_object \<notin> dtype_of ` snd ` set df"
proof -
  have "is_numeric_dtype d \<longleftrightarrow> d \<noteq> dt_object" for d by (cases d) simp_all
  then show ?thesis
    by (auto simp: bad_dtypes_def filter_empty_conv image_iff split: prod.splits)
qed

lemma score_state:
  "fst (score metric solution submission k) =
     (if k \<notin> set (map fst solution) then (solution, submission)
      else if k \<notin> set (map fst submission) then (drop_column solution k, submission)
      else (drop_column solution k, drop_column submission k))"
  by (simp add: score_def delitem_def)

lemma score_result:
  assumes "k \<in> set (map fst solution)" and "k \<in> set (map fst submission)"
  shows "snd (score metric solution submission k) =
     (if \<not> is_numeric_dtype (values_dtype (drop_column submission k))
      then Inl (ParticipantVisibleError (bad_dtypes (drop_column submission k)))
      else
        (case positive_columns (drop_column solution k) of
           Inl e \<Rightarrow> Inl e
         | Inr scored_columns \<Rightarrow>
             if scored_columns = [] then Inl AssertionError
             else
               (case select_columns (drop_column solution k) scored_columns of
                  Inl e \<Rightarrow> Inl e
                | Inr y_true \<Rightarrow>
                    (case select_columns (drop_column submission k) scored_columns of
                       Inl e \<Rightarrow> Inl e
                     | Inr y_score \<Rightarrow> metric y_true y_score))))"
  using assms by (simp add: score_def delitem_def split: sum.splits)

lemma sum_list_pos_iff:
  fixes vs :: "real list"
  assumes "\<forall>v\<in>set vs. 0 \<le> v"
  shows "sum_list vs > 0 \<longleftrightarrow> (\<exists>v\<in>set vs. v > 0)"
proof -
  have "sum_list vs = 0 \<longleftrightarrow> (\<forall>v\<in>set vs. v = 0)"
    using assms by (simp add: sum_list_nonneg_eq_0_iff)
  moreover have "0 \<le> sum_list vs" using assms by (simp add: sum_list_nonneg)
  ultimately show ?thesis using assms by (metis less_eq_real_def order_less_irrefl)
qed

lemma int64_wrap_id: "0 \<le> n \<Longrightarrow> n < 2 ^ 63 \<Longrightarrow> int64_wrap n = n"
  by (simp add: int64_wrap_def)

lemma real_sum_list: "real_of_int (sum_list xs) = sum_list (map real_of_int xs)"
  by (induction xs) simp_all

lemma bool_sum_list:
  "sum_list (map (\<lambda>b. if b then 1 else 0 :: real) xs) = real (length (filter (\<lambda>b. b) xs))"
  by (induction xs) simp_all

lemma column_sum_numeric:
  assumes "dtype_of c \<noteq> dt_object" and "\<forall>v\<in>set (column_values c). 0 \<le> v"
    and "sum_list (column_values c) < 2 ^ 63"
  shows "column_sum c = Inr (sum_list (column_values c))"
proof (cases c)
  case (IntCol xs)
  from assms(2) IntCol have "\<forall>v\<in>set xs. 0 \<le> v" by simp
  then have lo: "0 \<le> sum_list xs" by (simp add: sum_list_nonneg)
  from assms(3) IntCol have "real_of_int (sum_list xs) < real_of_int (2 ^ 63)"
    by (simp add: real_sum_list)
  then have hi: "sum_list xs < 2 ^ 63" by (simp only: of_int_less_iff)
  from int64_wrap_id [OF lo hi] IntCol show ?thesis by (simp add: real_sum_list)
next
  case (FloatCol xs)
  then show ?thesis by simp
next
  case (BoolCol xs)
  from assms(3) BoolCol have "real (length (filter (\<lambda>b. b) xs)) < real_of_int (2 ^ 63)"
    by (simp add: bool_sum_list)
  then have "real_of_int (int (length (filter (\<lambda>b. b) xs))) < real_of_int (2 ^ 63)"
    by simp
  then have "int (length (filter (\<lambda>b. b) xs)) < 2 ^ 63" by (simp only: of_int_less_iff)
  then have "int64_wrap (int (length (filter (\<lambda>b. b) xs))) = int (length (filter (\<lambda>b. b) xs))"
    by (simp add: int64_wrap_id)
  with BoolCol show ?thesis by (simp add: bool_sum_list)
next
  case (ObjectCol xs)
  with assms(1) show ?thesis by simp
qed

lemma positive_columns_eq:
  assumes "\<forall>(x, c)\<in>set df. dtype_of c \<noteq> dt_object \<and> (\<forall>v\<in>set (column_values c). 0 \<le> v) \<and>
             sum_list (column_values c) < 2 ^ 63"
  shows "positive_columns df = Inr (map fst (filter (\<lambda>(x, c). has_positive c) df))"
  using assms
proof (induction df)
  case Nil
  then show ?case by simp
next
  case (Cons p df)
  obtain x c where p: "p = (x, c)" by (cases p)
  from Cons.prems p have c: "dtype_of c \<noteq> dt_object" "\<forall>v\<in>set (column_values c). 0 \<le> v"
    "sum_list (column_values c) < 2 ^ 63"
    by simp_all
  from Cons.prems have "\<forall>(x, c)\<in>set df. dtype_of c \<noteq> dt_object \<and>
      (\<forall>v\<in>set (column_values c). 0 \<le> v) \<and> sum_list (column_values c) < 2 ^ 63"
    by simp
  from Cons.IH [OF this] show ?case
    using p column_sum_numeric [OF c] sum_list_pos_iff [OF c(2)]
    by (simp add: has_positive_def)
qed

lemma select_columns_own:
  assumes "\<forall>(x, c)\<in>set ys. map_of df x = Some c"
  shows "select_columns df (map fst ys) = Inr (map snd ys)"
  using assms by (induction ys) auto

lemma select_columns_present:
  assumes "set xs \<subseteq> set (map fst df)"
  shows "\<exists>cs. select_columns df xs = Inr cs \<and> map Some cs = map (map_of df) xs"
  using assms
proof (induction xs)
  case Nil
  then show ?case by simp
next
  case (Cons x xs)
  then obtain cs where cs: "select_columns df xs = Inr cs" "map Some cs = map (map_of df) xs"
    by auto
  from Cons.prems have "x \<in> fst ` set df" by simp
  then obtain c where "map_of df x = Some c"
    by (metis domD dom_map_of_conv_image_fst)
  with cs show ?case by simp
qed

lemma map_of_drop_column:
  "x \<noteq> k \<Longrightarrow> map_of (drop_column df k) x = map_of df x"
  by (induction df) (auto simp: drop_column_def)

lemma names_drop_column: "set (map fst (drop_column df k)) = set (map fst df) - {k}"
  by (auto simp: drop_column_def)

lemma distinct_drop_column: "distinct (map fst df) \<Longrightarrow> distinct (map fst (drop_column df k))"
  by (simp add: drop_column_def distinct_map_filter)

text \<open>
  The type check raises when a column is of type \<open>object\<close>, and it names that column.
\<close>

lemma score_object_column:
  assumes "k \<in> set (map fst solution)" and "k \<in> set (map fst submission)"
    and "(x, c) \<in> set submission" and "x \<noteq> k" and "dtype_of c = dt_object"
  shows "\<exists>bad. snd (score metric solution submission k) = Inl (ParticipantVisibleError bad) \<and>
    (x, dt_object) \<in> set bad"
proof -
  from assms(3,4) have in_drop: "(x, c) \<in> set (drop_column submission k)"
    by (simp add: drop_column_def)
  with assms(5) have "dt_object \<in> dtype_of ` snd ` set (drop_column submission k)"
    by force
  then have "\<not> is_numeric_dtype (values_dtype (drop_column submission k))"
    by (simp add: values_dtype_numeric_iff)
  moreover have "(x, dt_object) \<in> set (bad_dtypes (drop_column submission k))"
    using in_drop assms(5) by (force simp: bad_dtypes_def)
  ultimately show ?thesis using score_result [OF assms(1,2)] by simp
qed

text \<open>
  A submission whose columns are all boolean passes the type check and is scored.
\<close>

lemma score_accepts_boolean_columns:
  "snd (score macro_auc example_solution all_bool_submission ''row_id'') = Inr (11 / 12)"
  by code_simp

text \<open>
  C6. The failing call: every column of the submission is numeric by itself (the dictionary
  \<open>bad_dtypes\<close> is empty), one of them is boolean and the others are floats, and \<open>score\<close>
  raises the participant-visible error, with an empty dictionary in its message.
\<close>

theorem score_rejects_boolean_with_float_columns:
  "bad_dtypes (drop_column bool_submission ''row_id'') = [] \<and>
   snd (score macro_auc example_solution bool_submission ''row_id'') =
     Inl (ParticipantVisibleError [])"
  by code_simp

text \<open>
  What \<open>score\<close> does once the type check has passed. Let the row-identifier column be in both
  tables, the submission pass the type check, the ground-truth columns be numeric with no
  negative entry and with sums below \<open>2 ^ 63\<close> (as indicator columns are), and every
  ground-truth column have a submission column of its name. Then the scored columns are
  exactly the ground-truth columns with a positive row, in table order; when there is
  none, \<open>score\<close> fails with the assertion; otherwise its result is the result of the
  macro-averaged ROC-AUC call on these ground-truth columns and the submission columns of
  the same names.
\<close>

lemma score_after_type_check:
  assumes "distinct (map fst solution)"
    and "k \<in> set (map fst solution)" and "k \<in> set (map fst submission)"
    and "is_numeric_dtype (values_dtype (drop_column submission k))"
    and "\<forall>(x, c)\<in>set (drop_column solution k).
           dtype_of c \<noteq> dt_object \<and> (\<forall>v\<in>set (column_values c). 0 \<le> v) \<and>
           sum_list (column_values c) < 2 ^ 63"
    and "set (map fst solution) \<subseteq> set (map fst submission)"
  shows "let scored = filter (\<lambda>(x, c). has_positive c) (drop_column solution k) in
     if scored = [] then snd (score metric solution submission k) = Inl AssertionError
     else \<exists>y_score.
       map Some y_score = map (\<lambda>(x, c). map_of submission x) scored \<and>
       snd (score metric solution submission k) = metric (map snd scored) y_score"
proof -
  let ?sol = "drop_column solution k"
  let ?sub = "drop_column submission k"
  let ?scored = "filter (\<lambda>(x, c). has_positive c) ?sol"
  have pc: "positive_columns ?sol = Inr (map fst ?scored)"
    by (rule positive_columns_eq [OF assms(5)])
  have d: "distinct (map fst ?sol)" by (rule distinct_drop_column [OF assms(1)])
  have "\<forall>(x, c)\<in>set ?scored. map_of ?sol x = Some c"
    using d by (auto intro: map_of_is_SomeI)
  then have own: "select_columns ?sol (map fst ?scored) = Inr (map snd ?scored)"
    by (rule select_columns_own)
  have names: "set (map fst ?scored) \<subseteq> set (map fst ?sub)"
  proof
    fix x assume "x \<in> set (map fst ?scored)"
    then have "x \<in> set (map fst ?sol)" by auto
    then have "x \<in> set (map fst solution) - {k}" by (simp only: names_drop_column)
    with assms(6) have "x \<in> set (map fst submission) - {k}" by auto
    then show "x \<in> set (map fst ?sub)" by (simp only: names_drop_column)
  qed
  from select_columns_present [OF names] obtain ys where
    ys: "select_columns ?sub (map fst ?scored) = Inr ys"
    "map Some ys = map (map_of ?sub) (map fst ?scored)"
    by blast
  have "map (map_of ?sub) (map fst ?scored) = map (\<lambda>(x, c). map_of submission x) ?scored"
  proof -
    have "x \<noteq> k" if "(x, c) \<in> set ?scored" for x c
      using that by (auto simp: drop_column_def)
    then show ?thesis by (auto simp: map_of_drop_column)
  qed
  with ys(2) have ys': "map Some ys = map (\<lambda>(x, c). map_of submission x) ?scored" by simp
  show ?thesis
  proof (cases "?scored = []")
    case True
    then show ?thesis using score_result [OF assms(2,3), of metric] assms(4) pc
      by (simp add: Let_def)
  next
    case False
    then have "snd (score metric solution submission k) = metric (map snd ?scored) ys"
      using score_result [OF assms(2,3), of metric] assms(4) pc own ys(1) by simp
    with ys' False show ?thesis by (auto simp: Let_def)
  qed
qed

lemma score_after_type_check_example:
  "filter (\<lambda>(x, c). has_positive c) (drop_column example_solution ''row_id'') =
     [(''a'', IntCol [1, 0, 0, 1]), (''c'', IntCol [0, 1, 0, 0])] \<and>
   snd (score macro_auc example_solution example_submission ''row_id'') =
     macro_auc [IntCol [1, 0, 0, 1], IntCol [0, 1, 0, 0]]
       [FloatCol [9 / 10, 1 / 5, 3 / 10, 3 / 5], FloatCol [1 / 2, 2 / 5, 7 / 10, 1 / 10]] \<and>
   snd (score macro_auc example_solution example_submission ''row_id'') = Inr (2 / 3)"
proof -
  have 1: "distinct (map fst example_solution)" by code_simp
  have 2: "''row_id'' \<in> set (map fst example_solution)" by code_simp
  have 3: "''row_id'' \<in> set (map fst example_submission)" by code_simp
  have 4: "is_numeric_dtype (values_dtype (drop_column example_submission ''row_id''))"
    by code_simp
  have 5: "\<forall>(x, c)\<in>set (drop_column example_solution ''row_id'').
           dtype_of c \<noteq> dt_object \<and> (\<forall>v\<in>set (column_values c). 0 \<le> v) \<and>
           sum_list (column_values c) < 2 ^ 63"
    by code_simp
  have 6: "set (map fst example_solution) \<subseteq> set (map fst example_submission)" by code_simp
  have sc: "filter (\<lambda>(x, c). has_positive c) (drop_column example_solution ''row_id'') =
     [(''a'', IntCol [1, 0, 0, 1]), (''c'', IntCol [0, 1, 0, 0])]"
    by code_simp
  note th = score_after_type_check [OF 1 2 3 4 5 6, of macro_auc]
  from th have "\<exists>y_score.
      map Some y_score =
        map (\<lambda>(x, c). map_of example_submission x)
          [(''a'', IntCol [1, 0, 0, 1]), (''c'', IntCol [0, 1, 0, 0])] \<and>
      snd (score macro_auc example_solution example_submission ''row_id'') =
        macro_auc (map snd [(''a'', IntCol [1, 0, 0, 1]), (''c'', IntCol [0, 1, 0, 0])]) y_score"
    unfolding sc Let_def by simp
  then obtain y_score where
    y: "map Some y_score =
        map (\<lambda>(x, c). map_of example_submission x)
          [(''a'', IntCol [1, 0, 0, 1]), (''c'', IntCol [0, 1, 0, 0])]"
    and r: "snd (score macro_auc example_solution example_submission ''row_id'') =
        macro_auc (map snd [(''a'', IntCol [1, 0, 0, 1]), (''c'', IntCol [0, 1, 0, 0])]) y_score"
    by blast
  have "map Some [FloatCol [9 / 10, 1 / 5, 3 / 10, 3 / 5], FloatCol [1 / 2, 2 / 5, 7 / 10, 1 / 10]] =
        map (\<lambda>(x, c). map_of example_submission x)
          [(''a'', IntCol [1, 0, 0, 1]), (''c'', IntCol [0, 1, 0, 0])]"
    by code_simp
  with y have "map Some y_score =
      map Some [FloatCol [9 / 10, 1 / 5, 3 / 10, 3 / 5], FloatCol [1 / 2, 2 / 5, 7 / 10, 1 / 10]]"
    by simp
  then have "y_score =
      [FloatCol [9 / 10, 1 / 5, 3 / 10, 3 / 5], FloatCol [1 / 2, 2 / 5, 7 / 10, 1 / 10]]"
    by (simp add: map_eq_Cons_conv)
  with r have r': "snd (score macro_auc example_solution example_submission ''row_id'') =
     macro_auc [IntCol [1, 0, 0, 1], IntCol [0, 1, 0, 0]]
       [FloatCol [9 / 10, 1 / 5, 3 / 10, 3 / 5], FloatCol [1 / 2, 2 / 5, 7 / 10, 1 / 10]]"
    by simp
  have v: "macro_auc [IntCol [1, 0, 0, 1], IntCol [0, 1, 0, 0]]
       [FloatCol [9 / 10, 1 / 5, 3 / 10, 3 / 5], FloatCol [1 / 2, 2 / 5, 7 / 10, 1 / 10]] =
     Inr (2 / 3)"
    by code_simp
  from sc r' v show ?thesis by simp
qed

text \<open>
  C7. The failing call, the one of C6: every column of the submission is numeric by itself,
  the ground-truth columns \<open>a\<close> and \<open>c\<close> have a positive row, and the macro-averaged ROC-AUC
  of these two columns and the submission columns of the same names is \<open>2 / 3\<close>; but
  \<open>score\<close> computes no average: it raises the participant-visible error of the type check.
\<close>

theorem score_skips_average_on_boolean_with_float_columns:
  "bad_dtypes (drop_column bool_submission ''row_id'') = [] \<and>
   filter (\<lambda>(x, c). has_positive c) (drop_column example_solution ''row_id'') =
     [(''a'', IntCol [1, 0, 0, 1]), (''c'', IntCol [0, 1, 0, 0])] \<and>
   macro_auc [IntCol [1, 0, 0, 1], IntCol [0, 1, 0, 0]]
     [BoolCol [True, False, False, True], FloatCol [1 / 2, 2 / 5, 7 / 10, 1 / 10]] = Inr (2 / 3) \<and>
   snd (score macro_auc example_solution bool_submission ''row_id'') =
     Inl (ParticipantVisibleError []) \<and>
   snd (score macro_auc empty_solution bool_submission ''row_id'') =
     Inl (ParticipantVisibleError [])"
  by code_simp

lemma score_key_error:
  "k \<notin> set (map fst solution) \<or> k \<notin> set (map fst submission) \<Longrightarrow>
     snd (score metric solution submission k) = Inl KeyError"
  by (auto simp: score_def delitem_def)

text \<open>
  C9, as amended. \<open>score\<close> deletes the row-identifier column from the caller's tables: when both
  tables have the column, they are left without it, all other columns unchanged and in
  order, whatever the call returns or raises. When the solution table has no such column
  a \<open>KeyError\<close> is raised and both tables are unchanged; when only the submission table has
  none, a \<open>KeyError\<close> is raised and the solution table has already lost the column.
\<close>

theorem score_deletes_row_id_in_place:
  "fst (score metric solution submission k) =
     (if k \<notin> set (map fst solution) then (solution, submission)
      else if k \<notin> set (map fst submission) then (drop_column solution k, submission)
      else (drop_column solution k, drop_column submission k)) \<and>
   set (drop_column solution k) = {(x, c). (x, c) \<in> set solution \<and> x \<noteq> k} \<and>
   set (drop_column submission k) = {(x, c). (x, c) \<in> set submission \<and> x \<noteq> k} \<and>
   drop_column solution k = filter (\<lambda>(x, c). x \<noteq> k) solution \<and>
   drop_column submission k = filter (\<lambda>(x, c). x \<noteq> k) submission \<and>
   (k \<notin> set (map fst solution) \<or> k \<notin> set (map fst submission) \<longrightarrow>
      snd (score metric solution submission k) = Inl KeyError)"
proof -
  have "set (drop_column solution k) = {(x, c). (x, c) \<in> set solution \<and> x \<noteq> k}"
    "set (drop_column submission k) = {(x, c). (x, c) \<in> set submission \<and> x \<noteq> k}"
    by (auto simp: drop_column_def)
  then show ?thesis
    using score_state [of metric solution submission k]
      score_key_error [of k solution submission metric]
    by (simp add: drop_column_def)
qed

theorem score_deletes_row_id_in_place_witness:
  "fst (score macro_auc example_solution example_submission ''row_id'') =
     ([(''a'', IntCol [1, 0, 0, 1]), (''b'', IntCol [0, 0, 0, 0]), (''c'', IntCol [0, 1, 0, 0])],
      [(''a'', FloatCol [9 / 10, 1 / 5, 3 / 10, 3 / 5]),
       (''b'', FloatCol [1 / 10, 1 / 10, 1 / 2, 1 / 5]),
       (''c'', FloatCol [1 / 2, 2 / 5, 7 / 10, 1 / 10])]) \<and>
   score macro_auc example_solution example_submission ''id'' =
     ((example_solution, example_submission), Inl KeyError)"
proof -
  have absent: "''id'' \<notin> set (map fst example_solution)" by code_simp
  from score_deletes_row_id_in_place [of macro_auc example_solution example_submission "''id''"]
    absent
  have "fst (score macro_auc example_solution example_submission ''id'') =
      (example_solution, example_submission) \<and>
    snd (score macro_auc example_solution example_submission ''id'') = Inl KeyError"
    by simp
  then have ke: "score macro_auc example_solution example_submission ''id'' =
     ((example_solution, example_submission), Inl KeyError)"
    by (simp add: prod_eq_iff)
  have "drop_column example_solution ''row_id'' =
      [(''a'', IntCol [1, 0, 0, 1]), (''b'', IntCol [0, 0, 0, 0]), (''c'', IntCol [0, 1, 0, 0])]"
    by code_simp
  moreover have "drop_column example_submission ''row_id'' =
      [(''a'', FloatCol [9 / 10, 1 / 5, 3 / 10, 3 / 5]),
       (''b'', FloatCol [1 / 10, 1 / 10, 1 / 2, 1 / 5]),
       (''c'', FloatCol [1 / 2, 2 / 5, 7 / 10, 1 / 10])]"
    by code_simp
  moreover have "''row_id'' \<in> set (map fst example_solution)"
    by code_simp
  moreover have "''row_id'' \<in> set (map fst example_submission)"
    by code_simp
  ultimately show ?thesis
    using score_deletes_row_id_in_place [of macro_auc example_solution example_submission "''row_id''"]
      ke
    by simp
qed

text \<open>
  C9 as stated fails: after a call that returns a score, the caller's tables are not the
  tables that were passed in.
\<close>

theorem score_changes_caller_tables_counterexample:
  "snd (score macro_auc example_solution example_submission ''row_id'') = Inr (2 / 3) \<and>
   fst (score macro_auc example_solution example_submission ''row_id'') \<noteq>
     (example_solution, example_submission)"
  by code_simp

subsection \<open>The CRNN model\<close>

lemma softmax_sum:
  assumes "xs \<noteq> []"
  shows "sum_list (softmax xs) = 1"
proof -
  have pos: "0 < sum_list (map exp xs)"
    using assms by (induction xs rule: list_nonempty_induct) (simp_all add: add_pos_pos)
  have "sum_list (map (\<lambda>x. exp x / c) xs) = sum_list (map exp xs) / c" for c :: real
    by (induction xs) (simp_all add: add_divide_distrib)
  then have "sum_list (softmax xs) = sum_list (map exp xs) / sum_list (map exp xs)"
    by (simp add: softmax_def)
  with pos show ?thesis by simp
qed

lemma softmax_pos:
  assumes "a \<in> set (softmax xs)"
  shows "0 < a"
proof -
  from assms have ne: "xs \<noteq> []" by (auto simp: softmax_def)
  have pos: "0 < sum_list (map exp xs)"
    using ne by (induction xs rule: list_nonempty_induct) (simp_all add: add_pos_pos)
  from assms obtain x where "a = exp x / sum_list (map exp xs)" by (auto simp: softmax_def)
  with pos show ?thesis by simp
qed

lemma softmax_length: "length (softmax xs) = length xs"
  by (simp add: softmax_def)

lemma weighted_fold:
  assumes "\<forall>(a, h)\<in>set ps. length h = D"
  shows "foldr (\<lambda>(a, h) acc. map (\<lambda>(x, y). a * x + y) (zip h acc)) ps (replicate D (0::real)) =
    map (\<lambda>j. sum_list (map (\<lambda>(a, h). a * h ! j) ps)) [0..<D]"
  using assms
proof (induction ps)
  case Nil
  then show ?case by (simp add: map_replicate_trivial)
next
  case (Cons p ps)
  obtain a h where p: "p = (a, h)" by (cases p)
  from Cons.prems p have h: "length h = D" and rest: "\<forall>(a, h)\<in>set ps. length h = D"
    by simp_all
  have "map (\<lambda>(x, y). a * x + y)
          (zip h (map (\<lambda>j. sum_list (map (\<lambda>(a, h). a * h ! j) ps)) [0..<D])) =
        map (\<lambda>j. a * h ! j + sum_list (map (\<lambda>(a, h). a * h ! j) ps)) [0..<D]"
    using h by (intro nth_equalityI) simp_all
  with Cons.IH [OF rest] p show ?case by simp
qed

lemma context_weighted_sum:
  assumes "h \<noteq> []" and "\<forall>v\<in>set h. length v = D"
  shows "hd (matmul [w] h) = weighted_sum w h"
proof -
  from assms have D: "length (hd h) = D" by (cases h) simp_all
  have "\<forall>(a, v)\<in>set (zip w h). length v = D"
    using assms(2) by (auto dest: set_zip_rightD)
  from weighted_fold [OF this] show ?thesis
    using assms(1) D by (simp add: matmul_def weighted_sum_def)
qed

lemma attention_pool_eq:
  assumes "\<forall>h\<in>set gru_out. h \<noteq> [] \<and> (\<forall>v\<in>set h. length v = D)"
  shows "attention_pool attention gru_out =
    (map (\<lambda>h. softmax (map attention h)) gru_out,
     map (\<lambda>h. weighted_sum (softmax (map attention h)) h) gru_out)"
proof -
  have "hd (matmul [softmax (map attention h)] h) = weighted_sum (softmax (map attention h)) h"
    if "h \<in> set gru_out" for h
    using assms that context_weighted_sum by blast
  then show ?thesis
    by (simp add: attention_pool_def Let_def bmm_def zip_map1 zip_same_conv_map comp_def)
qed

lemma features_shape:
  "0 < B \<Longrightarrow> sequential training (crnn_features (PrecomputedFeatureCRNN num_classes 256)) [B, 1, 128, 256]
     = Inr [B, 256, 16, 32]"
  by (simp add: PrecomputedFeatureCRNN_def Let_def)

lemma forward_shapes_eq:
  assumes "0 < B" and "training \<longrightarrow> 2 \<le> B"
  shows "forward (PrecomputedFeatureCRNN num_classes 256) training [B, 1, 128, 256] =
    Inr \<lparr>gru_out_shape = [B, 32, 512], attn_weights_shape = [B, 1, 32],
         context_shape = [B, 512], output_shape = [B, num_classes]\<rparr>"
proof -
  let ?m = "PrecomputedFeatureCRNN num_classes 256"
  have f: "sequential training (crnn_features ?m) [B, 1, 128, 256] = Inr [B, 256, 16, 32]"
    by (rule features_shape [OF assms(1)])
  have p: "permute_0312 [B, 256, 16, 32] = Inr [B, 32, 256, 16]"
    by (simp add: permute_0312_def)
  have "prod_list [B, 32, 256, 16] = (B * 32) * 4096" by simp
  then have r: "reshape_infer [B, 32, 256, 16] B ([B, 32, 256, 16] ! 1) = Inr [B, 32, 4096]"
    using assms(1) by (simp add: reshape_infer_def del: prod_list.Cons)
  have g: "gru_shape (crnn_gru ?m) [B, 32, 4096] = Inr [B, 32, 512]"
    by (simp add: gru_shape_def PrecomputedFeatureCRNN_def Let_def)
  have a: "sequential training (crnn_attention ?m) [B, 32, 512] = Inr [B, 32, 1]"
    by (simp add: PrecomputedFeatureCRNN_def Let_def)
  have s: "softmax_dim1 (squeeze_last [B, 32, 1]) = Inr [B, 32]"
    by (simp add: softmax_dim1_def squeeze_last_def)
  have u: "unsqueeze_1 [B, 32] = Inr [B, 1, 32]" by (simp add: unsqueeze_1_def)
  have b: "bmm_shape [B, 1, 32] [B, 32, 512] = Inr [B, 1, 512]" by (simp add: bmm_shape_def)
  have q: "squeeze_1 [B, 1, 512] = Inr [B, 512]" by (simp add: squeeze_1_def)
  have c: "sequential training (crnn_classifier ?m) [B, 512] = Inr [B, num_classes]"
    using assms(2) by (auto simp: PrecomputedFeatureCRNN_def Let_def)
  show ?thesis
    unfolding forward_def list.case f sum.case p r g a s u b q c ..
qed

text \<open>
  C8, as amended. For a batch of \<open>B \<ge> 1\<close> examples of shape \<open>(B, 1, 128, 256)\<close>, in evaluation
  mode or, in training mode, with at least 2 examples, the forward pass has hidden vectors
  of shape \<open>(B, 32, 512)\<close>, attention weights of shape \<open>(B, 1, 32)\<close>, a context of shape
  \<open>(B, 512)\<close> and an output of shape \<open>(B, num_classes)\<close>. The attention weights of every
  example are the softmax of its scores: they are positive and sum to 1 over the time
  steps, and the context of the example is the sum of its hidden vectors weighted by them.
\<close>

theorem crnn_forward_shape_and_attention:
  assumes "0 < B" and "training \<longrightarrow> 2 \<le> B"
    and "\<forall>h\<in>set gru_out. h \<noteq> [] \<and> (\<forall>v\<in>set h. length v = D)"
  shows "forward (PrecomputedFeatureCRNN num_classes 256) training [B, 1, 128, 256] =
      Inr \<lparr>gru_out_shape = [B, 32, 512], attn_weights_shape = [B, 1, 32],
           context_shape = [B, 512], output_shape = [B, num_classes]\<rparr> \<and>
    fst (attention_pool attention gru_out) = map (\<lambda>h. softmax (map attention h)) gru_out \<and>
    (\<forall>w\<in>set (fst (attention_pool attention gru_out)). sum_list w = 1 \<and> (\<forall>a\<in>set w. 0 < a)) \<and>
    snd (attention_pool attention gru_out) =
      map (\<lambda>(w, h). weighted_sum w h) (zip (fst (attention_pool attention gru_out)) gru_out)"
proof -
  note eq = attention_pool_eq [OF assms(3), of attention]
  have sums: "\<forall>w\<in>set (fst (attention_pool attention gru_out)).
      sum_list w = 1 \<and> (\<forall>a\<in>set w. 0 < a)"
  proof
    fix w assume "w \<in> set (fst (attention_pool attention gru_out))"
    then obtain h where h: "h \<in> set gru_out" "w = softmax (map attention h)"
      by (auto simp: eq)
    with assms(3) have "map attention h \<noteq> []" by simp
    from softmax_sum [OF this] softmax_pos h(2) show "sum_list w = 1 \<and> (\<forall>a\<in>set w. 0 < a)"
      by blast
  qed
  have ctx: "snd (attention_pool attention gru_out) =
      map (\<lambda>(w, h). weighted_sum w h) (zip (fst (attention_pool attention gru_out)) gru_out)"
    by (simp add: eq zip_map1 zip_same_conv_map comp_def)
  have w: "fst (attention_pool attention gru_out) = map (\<lambda>h. softmax (map attention h)) gru_out"
    by (simp add: eq)
  from forward_shapes_eq [OF assms(1,2), of num_classes] w sums ctx show ?thesis by blast
qed

theorem crnn_forward_shape_and_attention_witness:
  "forward (PrecomputedFeatureCRNN 10 256) True [2, 1, 128, 256] =
      Inr \<lparr>gru_out_shape = [2, 32, 512], attn_weights_shape = [2, 1, 32],
           context_shape = [2, 512], output_shape = [2, 10]\<rparr> \<and>
   forward (PrecomputedFeatureCRNN 10 256) False [1, 1, 128, 256] =
      Inr \<lparr>gru_out_shape = [1, 32, 512], attn_weights_shape = [1, 1, 32],
           context_shape = [1, 512], output_shape = [1, 10]\<rparr> \<and>
   fst (attention_pool sum_list example_gru_out) = [softmax [3, 7], softmax [1, 1]] \<and>
   sum_list (softmax [3, 7]) = 1 \<and>
   snd (attention_pool sum_list example_gru_out) =
     [weighted_sum (softmax [3, 7]) [[1, 2], [3, 4]], weighted_sum (softmax [1, 1]) [[0, 1], [1, 0]]]"
proof -
  have g: "\<forall>h\<in>set example_gru_out. h \<noteq> [] \<and> (\<forall>v\<in>set h. length v = 2)"
    by (simp add: example_gru_out_def)
  have two: "0 < (2::nat)" and t: "True \<longrightarrow> 2 \<le> (2::nat)" by simp_all
  have one: "0 < (1::nat)" and e: "False \<longrightarrow> 2 \<le> (1::nat)" by simp_all
  note a = crnn_forward_shape_and_attention [OF two t g, of 10 sum_list]
  note b = crnn_forward_shape_and_attention [OF one e g, of 10 sum_list]
  from a have fa: "forward (PrecomputedFeatureCRNN 10 256) True [2, 1, 128, 256] =
      Inr \<lparr>gru_out_shape = [2, 32, 512], attn_weights_shape = [2, 1, 32],
           context_shape = [2, 512], output_shape = [2, 10]\<rparr>"
    by blast
  from b have fb: "forward (PrecomputedFeatureCRNN 10 256) False [1, 1, 128, 256] =
      Inr \<lparr>gru_out_shape = [1, 32, 512], attn_weights_shape = [1, 1, 32],
           context_shape = [1, 512], output_shape = [1, 10]\<rparr>"
    by blast
  from a have "fst (attention_pool sum_list example_gru_out) =
      map (\<lambda>h. softmax (map sum_list h)) example_gru_out"
    by blast
  then have w: "fst (attention_pool sum_list example_gru_out) = [softmax [3, 7], softmax [1, 1]]"
    by (simp add: example_gru_out_def)
  from a have "\<forall>w\<in>set (fst (attention_pool sum_list example_gru_out)). sum_list w = 1 \<and> (\<forall>a\<in>set w. 0 < a)"
    by blast
  then have s: "sum_list (softmax [3, 7]) = 1" unfolding w by simp
  from a have "snd (attention_pool sum_list example_gru_out) =
      map (\<lambda>(w, h). weighted_sum w h) (zip (fst (attention_pool sum_list example_gru_out)) example_gru_out)"
    by blast
  then have c: "snd (attention_pool sum_list example_gru_out) =
     [weighted_sum (softmax [3, 7]) [[1, 2], [3, 4]], weighted_sum (softmax [1, 1]) [[0, 1], [1, 0]]]"
    unfolding w by (simp add: example_gru_out_def)
  from fa fb w s c show ?thesis by blast
qed

text \<open>
  C8 as stated fails for a batch of one example in training mode: the batch normalisation
  of the classifier raises.
\<close>

theorem crnn_forward_single_example_training_counterexample:
  "forward (PrecomputedFeatureCRNN 10 256) True [1, 1, 128, 256] = Inl ValueError"
  by (simp add: forward_def PrecomputedFeatureCRNN_def Let_def permute_0312_def
      reshape_infer_def gru_shape_def squeeze_last_def softmax_dim1_def unsqueeze_1_def
      bmm_shape_def squeeze_1_def)

end
